theory Spec2Isabelle
  imports Main "HOL-Library.Word"
begin

unbundle bit_operations_syntax

section \<open>The PS/2 protocol engine (src/libs/ps2/ps2.c)\<close>

text \<open>
  The engine is a set of global variables and two interrupt handlers. The globals and the
  hardware register bits the code touches are the fields of one record; every C function
  becomes a function from the record to the updated record. \<open>int0_isr\<close> and
  \<open>timer0_ovf\<close> are the two handlers run from entry to exit; the timer handler running
  inside the bus-edge handler, which \<open>ISR_NOBLOCK\<close> allows, is \<open>int0_isr_nested\<close>.

  The header files are not part of the sources read here, so
  \<^item> the buffer capacity \<open>PS2_RXBUF_LEN\<close> is the parameter \<open>len\<close> of every function
    that uses it;
  \<^item> the bit positions \<open>PS2DAT\<close> and \<open>PS2CLK\<close> inside \<open>PS2DDR\<close>, \<open>PS2PORT\<close> and
    \<open>PS2PIN\<close> are not needed: each of the two bits of each register is a boolean field,
    and the two input pins are arguments of the handlers;
  \<^item> the three builds selected by the preprocessor are the three values of \<open>mcu\<close>; they
    differ in the timer constants only (the renamed registers \<open>TIMSK0\<close>, \<open>TCCR0B\<close>,
    \<open>EIMSK\<close>, \<open>EIFR\<close> are the same fields).
\<close>

type_synonym uint8_t = "8 word"

datatype mcu = ATmega8A | ATmega328P_16MHz | ATmega328P_8MHz

datatype pstate =
    IDLE | RX_DATA | RX_PARITY | RX_STOP
  | TX_REQ0 | TX_DATA | TX_PARITY | TX_STOP | TX_ACK | TX_END
  | ERROR

record ps2 =
  state :: pstate
  recv_byte :: uint8_t
  rx_head :: uint8_t
  rx_tail :: uint8_t
  rx_buf :: "uint8_t list"
  tx_byte :: uint8_t
  bits :: uint8_t
  parity :: uint8_t
  waitcnt :: uint8_t
  barkcnt :: uint8_t
  ddr_dat :: bool
  ddr_clk :: bool
  port_dat :: bool
  port_clk :: bool
  int0_en :: bool
  int0_flag :: bool
  toie0 :: bool
  tcnt0 :: uint8_t
  tccr0 :: uint8_t
  isc01 :: bool

text \<open>
  \<open>ddr_dat\<close>, \<open>ddr_clk\<close>: the bit of \<open>PS2DDR\<close> (set = the pin is an output).
  \<open>port_dat\<close>, \<open>port_clk\<close>: the bit of \<open>PS2PORT\<close>. \<open>int0_en\<close>: \<open>INT0\<close> in
  \<open>GICR\<close>/\<open>EIMSK\<close>; \<open>int0_flag\<close>: \<open>INTF0\<close> in \<open>GIFR\<close>/\<open>EIFR\<close>, which writing a one
  clears; \<open>toie0\<close>: \<open>TOIE0\<close> in \<open>TIMSK\<close>/\<open>TIMSK0\<close>; \<open>isc01\<close>: \<open>ISC01\<close> in
  \<open>MCUCR\<close>/\<open>EICRA\<close>. \<open>barkcnt\<close> is the static local of the timer handler.
\<close>

definition ps2_datin :: "bool \<Rightarrow> uint8_t" where
  "ps2_datin pin = (if pin then 0x80 else 0x00)"

definition ps2_clkin :: "bool \<Rightarrow> uint8_t" where
  "ps2_clkin pin = (if pin then 0x80 else 0x00)"

definition ps2_busy :: "ps2 \<Rightarrow> bool" where
  "ps2_busy s = (state s \<noteq> IDLE)"

definition ps2_dir :: "uint8_t \<Rightarrow> uint8_t \<Rightarrow> ps2 \<Rightarrow> ps2" where
  "ps2_dir dat_in clk_in s = s\<lparr>ddr_dat := (dat_in = 0), ddr_clk := (clk_in = 0)\<rparr>"

definition ps2_clk :: "uint8_t \<Rightarrow> ps2 \<Rightarrow> ps2" where
  "ps2_clk c s = s\<lparr>port_clk := (c \<noteq> 0)\<rparr>"

definition ps2_dat :: "uint8_t \<Rightarrow> ps2 \<Rightarrow> ps2" where
  "ps2_dat d s = s\<lparr>port_dat := (d \<noteq> 0)\<rparr>"

definition ps2_enable_recv :: "uint8_t \<Rightarrow> ps2 \<Rightarrow> ps2" where
  "ps2_enable_recv enable s =
     (if enable \<noteq> 0
      then (ps2_dir 1 1 (s\<lparr>state := IDLE\<rparr>))\<lparr>int0_flag := False, int0_en := True\<rparr>
      else ps2_dir 1 0 (ps2_clk 0 (s\<lparr>int0_en := False\<rparr>)))"

definition ps2_init :: "ps2 \<Rightarrow> ps2" where
  "ps2_init s =
     (ps2_enable_recv 0 (s\<lparr>state := IDLE, rx_head := 0, rx_tail := 0\<rparr>))
       \<lparr>isc01 := True, toie0 := False\<rparr>"

definition recover_tcnt0 :: "mcu \<Rightarrow> uint8_t" where
  "recover_tcnt0 t = (case t of ATmega328P_16MHz \<Rightarrow> 255 - 70 | _ \<Rightarrow> 255 - 35)"

definition sendbyte_tcnt0 :: "mcu \<Rightarrow> uint8_t" where
  "sendbyte_tcnt0 t = (case t of ATmega328P_16MHz \<Rightarrow> 255 - 8 | _ \<Rightarrow> 255 - 4)"

definition ack_tcnt0 :: "mcu \<Rightarrow> uint8_t" where
  "ack_tcnt0 t = (case t of ATmega328P_16MHz \<Rightarrow> 255 - 4 | _ \<Rightarrow> 255 - 2)"

definition bark_init :: "mcu \<Rightarrow> uint8_t" where
  "bark_init t = (case t of ATmega328P_16MHz \<Rightarrow> 40 | _ \<Rightarrow> 20)"

definition ps2_recover :: "mcu \<Rightarrow> ps2 \<Rightarrow> ps2" where
  "ps2_recover t s =
     (if state s = ERROR
      then (ps2_enable_recv 0 s)\<lparr>tcnt0 := recover_tcnt0 t, toie0 := True, tccr0 := 4\<rparr>
      else s)"

definition ps2_avail :: "ps2 \<Rightarrow> bool" where
  "ps2_avail s = (rx_head s \<noteq> rx_tail s)"

definition ps2_getbyte :: "nat \<Rightarrow> ps2 \<Rightarrow> uint8_t \<times> ps2" where
  "ps2_getbyte len s =
     (let result = rx_buf s ! unat (rx_tail s)
      in (result, s\<lparr>rx_tail := word_of_nat ((unat (rx_tail s) + 1) mod len)\<rparr>))"

text \<open>
  Lines 232-233 of the bus-edge handler, the only place that writes the ring buffer:
  \<open>rx_buf[rx_head] = recv_byte; rx_head = (rx_head + 1) % PS2_RXBUF_LEN\<close>.
\<close>

definition rx_put :: "nat \<Rightarrow> ps2 \<Rightarrow> ps2" where
  "rx_put len s =
     (let s1 = s\<lparr>rx_buf := (rx_buf s)[unat (rx_head s) := recv_byte s]\<rparr>
      in s1\<lparr>rx_head := word_of_nat ((unat (rx_head s1) + 1) mod len)\<rparr>)"

text \<open>\<open>ISR(INT0_vect)\<close>: one falling edge of the clock, \<open>pin\<close> the level of the data line.\<close>

definition int0_isr :: "nat \<Rightarrow> mcu \<Rightarrow> bool \<Rightarrow> ps2 \<Rightarrow> ps2" where
  "int0_isr len t pin s =
     (let ps2_indat = ps2_datin pin;
          s' = (case state s of
              ERROR \<Rightarrow> s
            | IDLE \<Rightarrow>
                (if ps2_indat = 0
                 then s\<lparr>state := RX_DATA, bits := 8, parity := 0, recv_byte := 0\<rparr>
                 else s\<lparr>state := ERROR\<rparr>)
            | RX_DATA \<Rightarrow>
                (let s1 = s\<lparr>recv_byte := drop_bit 1 (recv_byte s) OR ps2_indat\<rparr>;
                     s2 = s1\<lparr>parity := parity s1 XOR ps2_indat\<rparr>;
                     s3 = s2\<lparr>bits := bits s2 - 1\<rparr>
                 in if bits s3 = 0 then s3\<lparr>state := RX_PARITY\<rparr> else s3)
            | RX_PARITY \<Rightarrow>
                (let s1 = s\<lparr>parity := parity s XOR ps2_indat\<rparr>
                 in if parity s1 \<noteq> 0 then s1\<lparr>state := RX_STOP\<rparr> else s1\<lparr>state := ERROR\<rparr>)
            | RX_STOP \<Rightarrow>
                (if ps2_indat = 0 then s\<lparr>state := ERROR\<rparr>
                 else (rx_put len s)\<lparr>state := IDLE\<rparr>)
            | TX_REQ0 \<Rightarrow> s
            | TX_DATA \<Rightarrow>
                (let s1 = ps2_dat (tx_byte s AND 0x01) s;
                     s2 = s1\<lparr>parity := parity s1 XOR (tx_byte s1 AND 0x01)\<rparr>;
                     s3 = s2\<lparr>tx_byte := drop_bit 1 (tx_byte s2)\<rparr>;
                     s4 = s3\<lparr>bits := bits s3 - 1\<rparr>
                 in if bits s4 = 0 then s4\<lparr>state := TX_PARITY\<rparr> else s4)
            | TX_PARITY \<Rightarrow> (ps2_dat (parity s XOR 0x01) s)\<lparr>state := TX_STOP\<rparr>
            | TX_STOP \<Rightarrow> (ps2_dir 1 1 (ps2_dat 0 s))\<lparr>state := TX_ACK\<rparr>
            | TX_ACK \<Rightarrow>
                (if ps2_indat \<noteq> 0 then s\<lparr>state := ERROR\<rparr>
                 else s\<lparr>state := TX_END, waitcnt := 50, toie0 := True,
                        tcnt0 := ack_tcnt0 t, tccr0 := 2\<rparr>)
            | TX_END \<Rightarrow> s)
      in ps2_recover t s')"

text \<open>
  \<open>ISR(TIMER0_OVF_vect)\<close>: one overflow of timer 0, \<open>clk\<close> and \<open>dat\<close> the levels of the
  two lines. The \<open>TX_REQ0\<close> branch is split at the two calls of \<open>ps2_dir\<close>, so that the
  state between them can be named.
\<close>

definition tx_req0_pull :: "mcu \<Rightarrow> ps2 \<Rightarrow> ps2" where
  "tx_req0_pull t s =
     ps2_dir 0 0 (ps2_dat 0
       (s\<lparr>barkcnt := bark_init t, toie0 := True, tcnt0 := 0, tccr0 := 4\<rparr>))"

definition tx_req0_release :: "ps2 \<Rightarrow> ps2" where
  "tx_req0_release s =
     (ps2_dir 0 1 s)\<lparr>int0_flag := False, int0_en := True,
        bits := 8, parity := 0, state := TX_DATA\<rparr>"

definition timer0_ovf :: "mcu \<Rightarrow> bool \<Rightarrow> bool \<Rightarrow> ps2 \<Rightarrow> ps2" where
  "timer0_ovf t clk dat s =
     (case state s of
        ERROR \<Rightarrow>
          (ps2_enable_recv 1 (ps2_dat 0 (ps2_clk 0 (s\<lparr>state := IDLE\<rparr>))))
            \<lparr>toie0 := False, tccr0 := 0\<rparr>
      | TX_REQ0 \<Rightarrow> tx_req0_release (tx_req0_pull t s)
      | TX_END \<Rightarrow>
          (if ps2_clkin clk \<noteq> 0 \<and> ps2_datin dat \<noteq> 0
           then s\<lparr>toie0 := False, tccr0 := 0, state := IDLE\<rparr>
           else if waitcnt s = 0 then ps2_recover t (s\<lparr>state := ERROR\<rparr>)
           else s\<lparr>waitcnt := waitcnt s - 1\<rparr>)
      | _ \<Rightarrow>
          (if barkcnt s = 0 then ps2_recover t (s\<lparr>state := ERROR\<rparr>)
           else s\<lparr>barkcnt := barkcnt s - 1\<rparr>))"

text \<open>
  The two event sources. \<open>Edge dat\<close> is one invocation of the bus-edge handler, \<open>Tick clk
  dat\<close> one invocation of the timer handler; a run is a sequence of invocations.
\<close>

datatype event = Edge bool | Tick bool bool

fun handle :: "nat \<Rightarrow> mcu \<Rightarrow> event \<Rightarrow> ps2 \<Rightarrow> ps2" where
  "handle len t (Edge dat) s = int0_isr len t dat s"
| "handle len t (Tick clk dat) s = timer0_ovf t clk dat s"

fun run :: "nat \<Rightarrow> mcu \<Rightarrow> event list \<Rightarrow> ps2 \<Rightarrow> ps2" where
  "run len t [] s = s"
| "run len t (e # es) s = run len t es (handle len t e s)"

text \<open>
  The bus-edge handler is declared \<open>ISR(INT0_vect, ISR_NOBLOCK)\<close>: interrupts are enabled
  again on entry, so a timer overflow is served between two of its statements. The timer
  handler is an ordinary \<open>ISR\<close>, it runs with interrupts disabled and is not interrupted.

  \<open>int0_switch\<close> is the handler up to the end of its \<open>switch\<close> statement, so that
  \<open>int0_isr\<close> is \<open>int0_switch\<close> followed by \<open>ps2_recover\<close>. \<open>recover_writes\<close> are
  the register writes that \<open>ps2_recover\<close> performs after its test \<open>state == ERROR\<close> came
  out true, one per statement and in the order of the source: line 128 (\<open>INT0\<close> masked),
  line 132 (\<open>ps2_clk(0)\<close>), lines 139 and 140 (\<open>ps2_dir(1, 0)\<close>), and the three timer
  registers (lines 96-98, or 101-103 and 105-107 in the other two builds).
\<close>

definition int0_switch :: "nat \<Rightarrow> mcu \<Rightarrow> bool \<Rightarrow> ps2 \<Rightarrow> ps2" where
  "int0_switch len t pin s =
     (let ps2_indat = ps2_datin pin
      in case state s of
              ERROR \<Rightarrow> s
            | IDLE \<Rightarrow>
                (if ps2_indat = 0
                 then s\<lparr>state := RX_DATA, bits := 8, parity := 0, recv_byte := 0\<rparr>
                 else s\<lparr>state := ERROR\<rparr>)
            | RX_DATA \<Rightarrow>
                (let s1 = s\<lparr>recv_byte := drop_bit 1 (recv_byte s) OR ps2_indat\<rparr>;
                     s2 = s1\<lparr>parity := parity s1 XOR ps2_indat\<rparr>;
                     s3 = s2\<lparr>bits := bits s2 - 1\<rparr>
                 in if bits s3 = 0 then s3\<lparr>state := RX_PARITY\<rparr> else s3)
            | RX_PARITY \<Rightarrow>
                (let s1 = s\<lparr>parity := parity s XOR ps2_indat\<rparr>
                 in if parity s1 \<noteq> 0 then s1\<lparr>state := RX_STOP\<rparr> else s1\<lparr>state := ERROR\<rparr>)
            | RX_STOP \<Rightarrow>
                (if ps2_indat = 0 then s\<lparr>state := ERROR\<rparr>
                 else (rx_put len s)\<lparr>state := IDLE\<rparr>)
            | TX_REQ0 \<Rightarrow> s
            | TX_DATA \<Rightarrow>
                (let s1 = ps2_dat (tx_byte s AND 0x01) s;
                     s2 = s1\<lparr>parity := parity s1 XOR (tx_byte s1 AND 0x01)\<rparr>;
                     s3 = s2\<lparr>tx_byte := drop_bit 1 (tx_byte s2)\<rparr>;
                     s4 = s3\<lparr>bits := bits s3 - 1\<rparr>
                 in if bits s4 = 0 then s4\<lparr>state := TX_PARITY\<rparr> else s4)
            | TX_PARITY \<Rightarrow> (ps2_dat (parity s XOR 0x01) s)\<lparr>state := TX_STOP\<rparr>
            | TX_STOP \<Rightarrow> (ps2_dir 1 1 (ps2_dat 0 s))\<lparr>state := TX_ACK\<rparr>
            | TX_ACK \<Rightarrow>
                (if ps2_indat \<noteq> 0 then s\<lparr>state := ERROR\<rparr>
                 else s\<lparr>state := TX_END, waitcnt := 50, toie0 := True,
                        tcnt0 := ack_tcnt0 t, tccr0 := 2\<rparr>)
            | TX_END \<Rightarrow> s)"

definition recover_writes :: "mcu \<Rightarrow> (ps2 \<Rightarrow> ps2) list" where
  "recover_writes t =
     [\<lambda>s. s\<lparr>int0_en := False\<rparr>,
      ps2_clk 0,
      \<lambda>s. s\<lparr>ddr_dat := False\<rparr>,
      \<lambda>s. s\<lparr>ddr_clk := True\<rparr>,
      \<lambda>s. s\<lparr>tcnt0 := recover_tcnt0 t\<rparr>,
      \<lambda>s. s\<lparr>toie0 := True\<rparr>,
      \<lambda>s. s\<lparr>tccr0 := 4\<rparr>]"

fun apply_all :: "('a \<Rightarrow> 'a) list \<Rightarrow> 'a \<Rightarrow> 'a" where
  "apply_all [] s = s"
| "apply_all (f # fs) s = apply_all fs (f s)"

text \<open>
  Where the timer overflow is served inside the bus-edge handler: \<open>After_switch\<close>, between
  the \<open>switch\<close> statement and the call of \<open>ps2_recover\<close>, so that the test of line 93
  reads the state the timer handler left; \<open>In_recover k\<close>, after that test and after
  \<open>k\<close> of the register writes (when the test came out false there is nothing left to
  interrupt, and the overflow is served after the handler). An overflow inside the
  \<open>switch\<close> statement is not modelled: every run of \<open>int0_isr_nested\<close> is a run of the
  code, not every run of the code is one of \<open>int0_isr_nested\<close>.
\<close>

datatype preempt = After_switch | In_recover nat

definition int0_isr_nested ::
  "nat \<Rightarrow> mcu \<Rightarrow> bool \<Rightarrow> preempt \<Rightarrow> bool \<Rightarrow> bool \<Rightarrow> ps2 \<Rightarrow> ps2" where
  "int0_isr_nested len t pin at clk dat s =
     (let s1 = int0_switch len t pin s
      in case at of
           After_switch \<Rightarrow> ps2_recover t (timer0_ovf t clk dat s1)
         | In_recover k \<Rightarrow>
             (if state s1 = ERROR
              then apply_all (drop k (recover_writes t))
                     (timer0_ovf t clk dat (apply_all (take k (recover_writes t)) s1))
              else timer0_ovf t clk dat s1))"

text \<open>
  What happens while the main program spins: \<open>Whole e\<close>, a handler run from entry to
  exit; \<open>Nested pin at clk dat\<close>, the bus-edge handler with a timer overflow served
  inside it.
\<close>

datatype irq = Whole event | Nested bool preempt bool bool

fun serve :: "nat \<Rightarrow> mcu \<Rightarrow> irq \<Rightarrow> ps2 \<Rightarrow> ps2" where
  "serve len t (Whole e) s = handle len t e s"
| "serve len t (Nested pin at clk dat) s = int0_isr_nested len t pin at clk dat s"

text \<open>
  \<open>while (state != IDLE);\<close> The loop body is empty, so the state changes only when an
  interrupt is served: the loop is followed along the interrupts still to come, and
  leaves at the first state that is \<open>IDLE\<close>. \<open>None\<close>: the loop is still spinning when
  the given interrupts are used up.
\<close>

fun wait_idle :: "nat \<Rightarrow> mcu \<Rightarrow> irq list \<Rightarrow> ps2 \<Rightarrow> (irq list \<times> ps2) option" where
  "wait_idle len t [] s = (if state s = IDLE then Some ([], s) else None)"
| "wait_idle len t (e # es) s =
     (if state s = IDLE then Some (e # es, s) else wait_idle len t es (serve len t e s))"

definition sendbyte_start :: "mcu \<Rightarrow> uint8_t \<Rightarrow> ps2 \<Rightarrow> ps2" where
  "sendbyte_start t byte s =
     (let s1 = ps2_enable_recv 0 s;
          s2 = s1\<lparr>tx_byte := byte\<rparr>;
          s3 = s2\<lparr>state := TX_REQ0\<rparr>
      in s3\<lparr>tcnt0 := sendbyte_tcnt0 t, toie0 := True, tccr0 := 4\<rparr>)"

definition ps2_sendbyte ::
  "nat \<Rightarrow> mcu \<Rightarrow> uint8_t \<Rightarrow> irq list \<Rightarrow> ps2 \<Rightarrow> (irq list \<times> ps2) option" where
  "ps2_sendbyte len t byte evs s =
     (case wait_idle len t evs s of
        None \<Rightarrow> None
      | Some (evs1, s1) \<Rightarrow> wait_idle len t evs1 (sendbyte_start t byte s1))"

subsection \<open>The ring buffer as a queue\<close>

text \<open>
  A byte enters the buffer only through lines 232-233, with the byte in \<open>recv_byte\<close>.
  A sequence of queue operations is a list of \<open>Put v\<close> (the handler enqueues \<open>v\<close>) and
  \<open>Get\<close> (the consumer calls \<open>ps2_getbyte\<close>); \<open>rb_run\<close> returns the bytes the
  consumer got, in order, and the final state.
\<close>

definition rb_enqueue :: "nat \<Rightarrow> uint8_t \<Rightarrow> ps2 \<Rightarrow> ps2" where
  "rb_enqueue len v s = rx_put len (s\<lparr>recv_byte := v\<rparr>)"

datatype rb_op = Put uint8_t | Get

fun rb_run :: "nat \<Rightarrow> rb_op list \<Rightarrow> ps2 \<Rightarrow> uint8_t list \<times> ps2" where
  "rb_run len [] s = ([], s)"
| "rb_run len (Put v # ops) s = rb_run len ops (rb_enqueue len v s)"
| "rb_run len (Get # ops) s =
     (let (b, s1) = ps2_getbyte len s; (bs, s2) = rb_run len ops s1 in (b # bs, s2))"

fun produced :: "rb_op list \<Rightarrow> nat" where
  "produced [] = 0"
| "produced (Put v # ops) = Suc (produced ops)"
| "produced (Get # ops) = produced ops"

fun consumed :: "rb_op list \<Rightarrow> nat" where
  "consumed [] = 0"
| "consumed (Put v # ops) = consumed ops"
| "consumed (Get # ops) = Suc (consumed ops)"

text \<open>
  The C code indexes \<open>rx_buf\<close> without a check, so it is defined only while the buffer
  has its declared length and both indices are inside it. \<open>ps2_init\<close> establishes this
  and every operation keeps it. The indices are 8-bit, so the capacity is at most 256.
\<close>

definition rx_wf :: "nat \<Rightarrow> ps2 \<Rightarrow> bool" where
  "rx_wf len s =
     (0 < len \<and> len \<le> 256 \<and> length (rx_buf s) = len
      \<and> unat (rx_head s) < len \<and> unat (rx_tail s) < len)"

subsection \<open>Frames on the wire\<close>

text \<open>
  A receive frame is eleven falling edges: the start bit, the data bits \<open>ds\<close> in the
  order they are sampled, the parity bit and the stop bit. \<open>lsb_first_byte\<close> is the byte
  the specification asks for: the first sampled bit is bit 0, the next bit 1, and so on.
  \<open>ones\<close> counts the set bits of a list. \<open>states_of\<close> lists the state after each
  handler invocation of a run.
\<close>

definition lsb_first_byte :: "bool list \<Rightarrow> uint8_t" where
  "lsb_first_byte ds = horner_sum of_bool 2 ds"

definition ones :: "bool list \<Rightarrow> nat" where
  "ones bs = length (filter id bs)"

definition rx_frame :: "bool list \<Rightarrow> bool \<Rightarrow> bool \<Rightarrow> event list" where
  "rx_frame ds p stop = Edge False # map Edge ds @ [Edge p, Edge stop]"

fun states_of :: "nat \<Rightarrow> mcu \<Rightarrow> event list \<Rightarrow> ps2 \<Rightarrow> ps2 list" where
  "states_of len t [] s = []"
| "states_of len t (e # es) s = handle len t e s # states_of len t es (handle len t e s)"

definition rx_same :: "ps2 \<Rightarrow> ps2 \<Rightarrow> bool" where
  "rx_same a b = (rx_head a = rx_head b \<and> rx_tail a = rx_tail b \<and> rx_buf a = rx_buf b)"


text \<open>
  Reception is enabled when both lines are inputs and the bus-edge interrupt is unmasked.
  \<open>tx_inv\<close> is what every state between \<open>ps2_sendbyte\<close> storing the byte and its
  return satisfies.
\<close>

definition recv_enabled :: "ps2 \<Rightarrow> bool" where
  "recv_enabled s = (\<not> ddr_dat s \<and> \<not> ddr_clk s \<and> int0_en s)"

definition tx_inv :: "ps2 \<Rightarrow> bool" where
  "tx_inv s =
     (case state s of
        TX_REQ0 \<Rightarrow> True
      | ERROR \<Rightarrow> True
      | TX_DATA \<Rightarrow> int0_en s
      | TX_PARITY \<Rightarrow> int0_en s
      | TX_STOP \<Rightarrow> int0_en s
      | _ \<Rightarrow> recv_enabled s)"


section \<open>The packet translator (src/libs/ps22ser/ps22ser.c)\<close>

text \<open>
  \<open>src\<close> and \<open>dst\<close> are pointers into one memory, and nothing in the code keeps the two
  buffers apart: the memory is a function from addresses to bytes, and each statement reads
  the memory the statements before it have written. The shifts are done on \<open>int\<close> in C;
  no operand exceeds 0x80, so no bit is lost in the 8-bit words.
\<close>

type_synonym mem = "nat \<Rightarrow> uint8_t"

definition ps2bufToSer :: "nat \<Rightarrow> nat \<Rightarrow> mem \<Rightarrow> uint8_t \<times> mem" where
  "ps2bufToSer src dst m =
     (if m src AND 0x08 = 0 then (0, m)
      else
        let m1 = m(dst := 0xC0);
            m2 = m1(dst + 2 := 0x80);
            m3 = m2(dst + 1 := 0x80);
            m4 = m3(dst := m3 dst OR push_bit 5 (m3 src AND 0x01));
            m5 = m4(dst := m4 dst OR push_bit 3 (m4 src AND 0x02));
            m6 = m5(dst := m5 dst OR drop_bit 2 (m5 src AND 0x20));
            m7 = m6(dst := m6 dst OR drop_bit 3 (m6 src AND 0x10));
            m8 = m7(dst := m7 dst OR drop_bit 5 (m7 (src + 2) AND 0x80));
            m9 = m8(dst := m8 dst OR drop_bit 7 (m8 (src + 1) AND 0x80));
            m10 = m9(dst + 1 := m9 (dst + 1) OR drop_bit 1 (m9 (src + 1) AND 0x7E));
            m11 = m10(dst + 2 := m10 (dst + 2) OR drop_bit 1 (m10 (src + 2) AND 0x7E))
        in (1, m11))"

text \<open>The three bytes of the serial packet as a function of the three bytes of the PS/2 packet.\<close>

definition ser_packet :: "uint8_t \<Rightarrow> uint8_t \<Rightarrow> uint8_t \<Rightarrow> uint8_t \<times> uint8_t \<times> uint8_t" where
  "ser_packet b0 b1 b2 =
     (0xC0 OR push_bit 5 (b0 AND 0x01) OR push_bit 3 (b0 AND 0x02)
        OR drop_bit 2 (b0 AND 0x20) OR drop_bit 3 (b0 AND 0x10)
        OR drop_bit 5 (b2 AND 0x80) OR drop_bit 7 (b1 AND 0x80),
      0x80 OR drop_bit 1 (b1 AND 0x7E),
      0x80 OR drop_bit 1 (b2 AND 0x7E))"

text \<open>\<open>mem_at base bs\<close>: the bytes \<open>bs\<close> from address \<open>base\<close> on, zero elsewhere.\<close>

definition mem_at :: "nat \<Rightarrow> uint8_t list \<Rightarrow> mem" where
  "mem_at base bs a = (if base \<le> a \<and> a < base + length bs then bs ! (a - base) else 0)"

section \<open>Concrete inputs\<close>

text \<open>
  A memory image with every variable and register bit zero and a buffer of 16 bytes;
  \<open>ps2_init\<close> on it is the state after start-up, \<open>ps2_enable_recv 1\<close> after that the
  state in which the driver waits for the device.
\<close>

definition ps2_zero :: ps2 where
  "ps2_zero = \<lparr>state = IDLE, recv_byte = 0, rx_head = 0, rx_tail = 0,
     rx_buf = [0, 0, 0, 0, 0, 0, 0, 0, 0, 0, 0, 0, 0, 0, 0, 0],
     tx_byte = 0, bits = 0, parity = 0, waitcnt = 0, barkcnt = 0,
     ddr_dat = False, ddr_clk = False, port_dat = False, port_clk = False,
     int0_en = False, int0_flag = False, toie0 = False, tcnt0 = 0, tccr0 = 0,
     isc01 = False\<rparr>"

definition ps2_ready :: ps2 where
  "ps2_ready = ps2_enable_recv 1 (ps2_init ps2_zero)"

definition sixteen_puts :: "rb_op list" where
  "sixteen_puts = [Put 1, Put 2, Put 3, Put 4, Put 5, Put 6, Put 7, Put 8,
     Put 9, Put 10, Put 11, Put 12, Put 13, Put 14, Put 15, Put 16]"

definition cd_bits :: "bool list" where
  "cd_bits = [True, False, True, True, False, False, True, True]"

definition tx_end_wait1 :: ps2 where
  "tx_end_wait1 = ps2_ready\<lparr>state := TX_END, waitcnt := 1\<rparr>"

text \<open>
  Three ways a transmission can go, as sequences of handler invocations after
  \<open>ps2_sendbyte\<close> has stored the byte: the device clocks the frame and acknowledges; it
  clocks the frame and leaves the data line high at the acknowledge bit; it never clocks.
\<close>

definition tx_clocked :: "event list" where
  "tx_clocked = [Tick False False,
     Edge False, Edge False, Edge False, Edge False, Edge False, Edge False, Edge False,
     Edge False, Edge False, Edge True]"

definition ack_run :: "event list" where
  "ack_run = tx_clocked @ [Edge False, Tick False False, Tick True True]"

definition nack_run :: "event list" where
  "nack_run = tx_clocked @ [Edge True, Tick True True]"

text \<open>
  The second of these with the timer overflow served inside the bus-edge handler of the
  acknowledge bit, after the test of line 93 and before the write of line 128.
\<close>

definition nack_nested_run :: "irq list" where
  "nack_nested_run = map Whole tx_clocked @ [Nested True (In_recover 0) False False]"

definition silent_run :: "event list" where
  "silent_run = [Tick False False, Tick False False, Tick False False, Tick False False,
     Tick False False, Tick False False, Tick False False, Tick False False,
     Tick False False, Tick False False, Tick False False, Tick False False,
     Tick False False, Tick False False, Tick False False, Tick False False,
     Tick False False, Tick False False, Tick False False, Tick False False,
     Tick False False, Tick False False, Tick False False]"

definition nine_samples :: "bool list" where
  "nine_samples = [False, False, False, False, False, False, False, False, False]"

definition tx_request_5A :: ps2 where
  "tx_request_5A = sendbyte_start ATmega8A 0x5A ps2_ready"


definition aliased_packet :: mem where
  "aliased_packet = mem_at 0x100 [0x08, 0x00, 0x00]"

definition packet_mem :: mem where
  "packet_mem = mem_at 0x100 [0x09, 0x85, 0x7F, 0x55, 0x55, 0x55]"

section \<open>The ring buffer\<close>

lemma next_index_neq:
  assumes "2 \<le> len"
  shows "(x + 1) mod len \<noteq> (x::nat)"
proof (cases "x + 1 < len")
  case True
  then show ?thesis by simp
next
  case False
  show ?thesis
  proof (cases "x + 1 = len")
    case True
    then show ?thesis using assms by auto
  next
    case neq: False
    have "(x + 1) mod len < len" using assms by simp
    then show ?thesis using False neq by linarith
  qed
qed

lemma unat_next_index:
  assumes "0 < len" and "len \<le> 256"
  shows "unat (word_of_nat (n mod len) :: uint8_t) = n mod len"
proof -
  have "n mod len < len" using assms(1) by simp
  then have "n mod len < 256" using assms(2) by linarith
  then show ?thesis by (simp add: unat_of_nat)
qed

lemma init_rx_wf:
  "0 < len \<Longrightarrow> len \<le> 256 \<Longrightarrow> length (rx_buf s) = len \<Longrightarrow> rx_wf len (ps2_init s)"
  by (simp add: rx_wf_def ps2_init_def ps2_enable_recv_def ps2_dir_def ps2_clk_def)

lemma rx_put_rx_wf: "rx_wf len s \<Longrightarrow> rx_wf len (rx_put len s)"
  by (simp add: rx_wf_def rx_put_def Let_def unat_next_index)

lemma getbyte_rx_wf: "rx_wf len s \<Longrightarrow> rx_wf len (snd (ps2_getbyte len s))"
  by (simp add: rx_wf_def ps2_getbyte_def Let_def unat_next_index)

lemma ready_rx_wf: "rx_wf 16 ps2_ready"
  by (simp add: rx_wf_def ps2_ready_def ps2_init_def ps2_enable_recv_def ps2_dir_def ps2_clk_def
      ps2_zero_def)

text \<open>
  C10. \<open>ps2_getbyte\<close> returns the byte at the tail index and advances the tail by one
  modulo the capacity, whether or not the buffer holds a byte; called on an empty buffer
  (head equal to tail) it leaves a buffer that \<open>ps2_avail\<close> reports as non-empty. The
  capacity is at least 2.
\<close>

theorem ps2_getbyte_unchecked:
  assumes "rx_wf len s" and "2 \<le> len"
  shows "ps2_getbyte len s =
           (rx_buf s ! unat (rx_tail s),
            s\<lparr>rx_tail := word_of_nat ((unat (rx_tail s) + 1) mod len)\<rparr>)
         \<and> unat (rx_tail (snd (ps2_getbyte len s))) = (unat (rx_tail s) + 1) mod len
         \<and> (\<not> ps2_avail s \<longrightarrow> ps2_avail (snd (ps2_getbyte len s)))"
proof -
  have pos: "0 < len" and le: "len \<le> 256" using assms(1) by (simp_all add: rx_wf_def)
  have nxt: "unat (rx_tail (snd (ps2_getbyte len s))) = (unat (rx_tail s) + 1) mod len"
    by (simp add: ps2_getbyte_def Let_def unat_next_index [OF pos le])
  have "rx_tail (snd (ps2_getbyte len s)) \<noteq> rx_tail s"
  proof
    assume "rx_tail (snd (ps2_getbyte len s)) = rx_tail s"
    then have "(unat (rx_tail s) + 1) mod len = unat (rx_tail s)" using nxt by simp
    then show False using next_index_neq [OF assms(2)] by blast
  qed
  moreover have "rx_head (snd (ps2_getbyte len s)) = rx_head s"
    by (simp add: ps2_getbyte_def Let_def)
  ultimately have "\<not> ps2_avail s \<longrightarrow> ps2_avail (snd (ps2_getbyte len s))"
    by (simp add: ps2_avail_def)
  then show ?thesis using nxt by (simp add: ps2_getbyte_def Let_def)
qed

theorem ps2_getbyte_unchecked_witness:
  "rx_wf 16 ps2_ready \<and> (2::nat) \<le> 16 \<and> \<not> ps2_avail ps2_ready
   \<and> fst (ps2_getbyte 16 ps2_ready) = 0
   \<and> rx_tail (snd (ps2_getbyte 16 ps2_ready)) = 1
   \<and> ps2_avail (snd (ps2_getbyte 16 ps2_ready))"
  using ps2_getbyte_unchecked [of 16 ps2_ready] ready_rx_wf
  by (simp add: ps2_avail_def ps2_ready_def ps2_init_def ps2_enable_recv_def ps2_dir_def
      ps2_clk_def ps2_zero_def ps2_getbyte_def)

lemma mod_shift_eq_iff:
  assumes "c \<le> p" and "p - c < len"
  shows "((h + p) mod len = (h + c) mod (len::nat)) = (p = c)"
proof -
  have "h + c \<le> h + p" using assms(1) by simp
  then have "((h + p) mod len = (h + c) mod len) = (len dvd (h + p) - (h + c))"
    by (rule mod_eq_dvd_iff_nat)
  also have "(h + p) - (h + c) = p - c" by simp
  also have "(len dvd p - c) = (p - c = 0)"
    using assms(2) by (auto dest: dvd_imp_le)
  also have "\<dots> = (p = c)" using assms(1) by auto
  finally show ?thesis .
qed

lemma mod_shift_neq:
  assumes "0 < d" and "d < len"
  shows "(h + d) mod len \<noteq> h mod (len::nat)"
  using mod_shift_eq_iff [of 0 d len h] assms by simp

lemma rx_head_enqueue:
  assumes "0 < len" and "len \<le> 256"
  shows "unat (rx_head (rb_enqueue len v s)) = (unat (rx_head s) + 1) mod len"
  by (simp add: rb_enqueue_def rx_put_def Let_def unat_next_index [OF assms])

lemma rx_tail_getbyte:
  assumes "0 < len" and "len \<le> 256"
  shows "unat (rx_tail (snd (ps2_getbyte len s))) = (unat (rx_tail s) + 1) mod len"
  by (simp add: ps2_getbyte_def Let_def unat_next_index [OF assms])

lemma rb_run_Get_fst:
  "fst (rb_run len (Get # ops) s) =
     fst (ps2_getbyte len s) # fst (rb_run len ops (snd (ps2_getbyte len s)))"
  by (simp add: split_def Let_def)

lemma rb_run_Get_snd:
  "snd (rb_run len (Get # ops) s) = snd (rb_run len ops (snd (ps2_getbyte len s)))"
  by (simp add: split_def Let_def)

lemma rb_run_append_fst:
  "fst (rb_run len (ops1 @ ops2) s) =
     fst (rb_run len ops1 s) @ fst (rb_run len ops2 (snd (rb_run len ops1 s)))"
proof (induction ops1 arbitrary: s)
  case Nil
  show ?case by simp
next
  case (Cons a ops1)
  show ?case by (cases a) (simp_all add: Cons.IH split_def Let_def)
qed

lemma rb_run_append_snd:
  "snd (rb_run len (ops1 @ ops2) s) = snd (rb_run len ops2 (snd (rb_run len ops1 s)))"
proof (induction ops1 arbitrary: s)
  case Nil
  show ?case by simp
next
  case (Cons a ops1)
  show ?case by (cases a) (simp_all add: Cons.IH split_def Let_def)
qed

lemma rb_run_head:
  assumes "0 < len" and "len \<le> 256"
  shows "unat (rx_head s) < len \<Longrightarrow>
         unat (rx_head (snd (rb_run len ops s))) = (unat (rx_head s) + produced ops) mod len"
proof (induction ops arbitrary: s)
  case Nil
  then show ?case by simp
next
  case (Cons a ops)
  show ?case
  proof (cases a)
    case (Put v)
    have h: "unat (rx_head (rb_enqueue len v s)) = (unat (rx_head s) + 1) mod len"
      by (rule rx_head_enqueue [OF assms])
    then have "unat (rx_head (rb_enqueue len v s)) < len" using assms(1) by simp
    from Cons.IH [OF this] show ?thesis
      by (simp add: Put h mod_add_left_eq)
  next
    case Get
    have "rx_head (snd (ps2_getbyte len s)) = rx_head s"
      by (simp add: ps2_getbyte_def Let_def)
    with Cons.IH [of "snd (ps2_getbyte len s)"] Cons.prems show ?thesis
      by (simp add: Get split_def Let_def)
  qed
qed

lemma rb_run_tail:
  assumes "0 < len" and "len \<le> 256"
  shows "unat (rx_tail s) < len \<Longrightarrow>
         unat (rx_tail (snd (rb_run len ops s))) = (unat (rx_tail s) + consumed ops) mod len"
proof (induction ops arbitrary: s)
  case Nil
  then show ?case by simp
next
  case (Cons a ops)
  show ?case
  proof (cases a)
    case (Put v)
    have "rx_tail (rb_enqueue len v s) = rx_tail s"
      by (simp add: rb_enqueue_def rx_put_def Let_def)
    with Cons.IH [of "rb_enqueue len v s"] Cons.prems show ?thesis
      by (simp add: Put)
  next
    case Get
    have h: "unat (rx_tail (snd (ps2_getbyte len s))) = (unat (rx_tail s) + 1) mod len"
      by (rule rx_tail_getbyte [OF assms])
    then have "unat (rx_tail (snd (ps2_getbyte len s))) < len" using assms(1) by simp
    from Cons.IH [OF this] show ?thesis
      by (simp add: Get h mod_add_left_eq split_def Let_def)
  qed
qed

lemma rb_avail_iff:
  assumes "0 < len" and "len \<le> 256"
    and "rx_head s = rx_tail s" and "unat (rx_tail s) < len"
    and "consumed ops \<le> produced ops" and "produced ops - consumed ops < len"
  shows "(\<not> ps2_avail (snd (rb_run len ops s))) = (produced ops = consumed ops)"
proof -
  let ?s = "snd (rb_run len ops s)"
  have hd: "unat (rx_head ?s) = (unat (rx_tail s) + produced ops) mod len"
    using rb_run_head [OF assms(1,2), of s ops] assms(3,4) by simp
  have tl: "unat (rx_tail ?s) = (unat (rx_tail s) + consumed ops) mod len"
    using rb_run_tail [OF assms(1,2) assms(4)] by simp
  have "(rx_head ?s = rx_tail ?s) = (unat (rx_head ?s) = unat (rx_tail ?s))"
    by (simp add: word_unat_eq_iff)
  also have "\<dots> = (produced ops = consumed ops)"
    unfolding hd tl by (rule mod_shift_eq_iff [OF assms(5,6)])
  finally show ?thesis by (simp add: ps2_avail_def)
qed

lemma produced_append: "produced (a @ b) = produced a + produced b"
  by (induction a rule: produced.induct) simp_all

lemma consumed_append: "consumed (a @ b) = consumed a + consumed b"
  by (induction a rule: consumed.induct) simp_all

lemma produced_puts: "produced (map Put xs) = length xs"
  by (induction xs) simp_all

lemma consumed_puts: "consumed (map Put xs) = 0"
  by (induction xs) simp_all

lemma produced_gets: "produced (replicate n Get) = 0"
  by (induction n) simp_all

lemma consumed_gets: "consumed (replicate n Get) = n"
  by (induction n) simp_all

lemma rb_puts_fst: "fst (rb_run len (map Put xs) s) = []"
  by (induction xs arbitrary: s) simp_all

lemma rb_puts_tail: "rx_tail (snd (rb_run len (map Put xs) s)) = rx_tail s"
  by (induction xs arbitrary: s) (simp_all add: rb_enqueue_def rx_put_def Let_def)

lemma rb_puts_length: "length (rx_buf (snd (rb_run len (map Put xs) s))) = length (rx_buf s)"
  by (induction xs arbitrary: s) (simp_all add: rb_enqueue_def rx_put_def Let_def)

lemma rb_puts_other:
  assumes "0 < len" and "len \<le> 256"
  shows "unat (rx_head s) < len \<Longrightarrow>
         (\<And>k. k < length xs \<Longrightarrow> (unat (rx_head s) + k) mod len \<noteq> j) \<Longrightarrow>
         rx_buf (snd (rb_run len (map Put xs) s)) ! j = rx_buf s ! j"
proof (induction xs arbitrary: s)
  case Nil
  show ?case by simp
next
  case (Cons x xs)
  let ?s1 = "rb_enqueue len x s"
  have h1: "unat (rx_head ?s1) = (unat (rx_head s) + 1) mod len"
    by (rule rx_head_enqueue [OF assms])
  have lt: "unat (rx_head ?s1) < len" using h1 assms(1) by simp
  have "(unat (rx_head ?s1) + k) mod len \<noteq> j" if "k < length xs" for k
  proof -
    have "(unat (rx_head s) + Suc k) mod len \<noteq> j" using Cons.prems(2) [of "Suc k"] that by simp
    then show ?thesis by (simp add: h1 mod_add_left_eq)
  qed
  then have "rx_buf (snd (rb_run len (map Put xs) ?s1)) ! j = rx_buf ?s1 ! j"
    using Cons.IH [OF lt] by blast
  moreover have "unat (rx_head s) \<noteq> j"
    using Cons.prems(2) [of 0] Cons.prems(1) by simp
  ultimately show ?case by (simp add: rb_enqueue_def rx_put_def Let_def)
qed

lemma rb_puts_slot:
  assumes "0 < len" and "len \<le> 256"
  shows "unat (rx_head s) < len \<Longrightarrow> length (rx_buf s) = len \<Longrightarrow>
         length xs \<le> len \<Longrightarrow> i < length xs \<Longrightarrow>
         rx_buf (snd (rb_run len (map Put xs) s)) ! ((unat (rx_head s) + i) mod len) = xs ! i"
proof (induction xs arbitrary: s i)
  case Nil
  then show ?case by simp
next
  case (Cons x xs)
  let ?s1 = "rb_enqueue len x s"
  let ?h = "unat (rx_head s)"
  have h1: "unat (rx_head ?s1) = (?h + 1) mod len"
    by (rule rx_head_enqueue [OF assms])
  have lt: "unat (rx_head ?s1) < len" using h1 assms(1) by simp
  have ln: "length (rx_buf ?s1) = len"
    using Cons.prems(2) by (simp add: rb_enqueue_def rx_put_def Let_def)
  show ?case
  proof (cases i)
    case 0
    have "(unat (rx_head ?s1) + k) mod len \<noteq> ?h" if "k < length xs" for k
    proof -
      have "0 < Suc k" and "Suc k < len" using that Cons.prems(3) by simp_all
      then have "(?h + Suc k) mod len \<noteq> ?h mod len" by (rule mod_shift_neq)
      then show ?thesis using Cons.prems(1) by (simp add: h1 mod_add_left_eq)
    qed
    then have "rx_buf (snd (rb_run len (map Put xs) ?s1)) ! ?h = rx_buf ?s1 ! ?h"
      using rb_puts_other [OF assms lt] by blast
    also have "\<dots> = x"
      using Cons.prems(1,2) by (simp add: rb_enqueue_def rx_put_def Let_def)
    finally show ?thesis using Cons.prems(1) by (simp add: 0)
  next
    case (Suc i')
    have "rx_buf (snd (rb_run len (map Put xs) ?s1)) ! ((unat (rx_head ?s1) + i') mod len)
            = xs ! i'"
      using Cons.IH [OF lt ln] Cons.prems(3,4) by (simp add: Suc)
    then show ?thesis by (simp add: Suc h1 mod_add_left_eq)
  qed
qed

lemma rb_gets_fst:
  assumes "0 < len" and "len \<le> 256"
  shows "unat (rx_tail s) < len \<Longrightarrow>
         fst (rb_run len (replicate n Get) s) =
           map (\<lambda>i. rx_buf s ! ((unat (rx_tail s) + i) mod len)) [0..<n]"
proof (induction n arbitrary: s)
  case 0
  show ?case by simp
next
  case (Suc n)
  let ?s1 = "snd (ps2_getbyte len s)"
  have t1: "unat (rx_tail ?s1) = (unat (rx_tail s) + 1) mod len"
    by (rule rx_tail_getbyte [OF assms])
  have lt: "unat (rx_tail ?s1) < len" using t1 assms(1) by simp
  have buf: "rx_buf ?s1 = rx_buf s" by (simp add: ps2_getbyte_def Let_def)
  have b: "fst (ps2_getbyte len s) = rx_buf s ! unat (rx_tail s)"
    by (simp add: ps2_getbyte_def Let_def)
  have "[0..<Suc n] = 0 # map Suc [0..<n]"
    by (simp add: upt_conv_Cons map_Suc_upt del: upt_Suc)
  then have "map (\<lambda>i. rx_buf s ! ((unat (rx_tail s) + i) mod len)) [0..<Suc n] =
        rx_buf s ! unat (rx_tail s)
          # map (\<lambda>i. rx_buf s ! ((unat (rx_tail ?s1) + i) mod len)) [0..<n]"
    using Suc.prems by (simp add: t1 mod_add_left_eq comp_def del: upt_Suc)
  then show ?case
    using Suc.IH [OF lt] by (simp add: rb_run_Get_fst b buf del: upt_Suc rb_run.simps)
qed

text \<open>
  C5, as amended. From an empty, well-formed buffer (head equal to tail), after any sequence of enqueues
  and dequeues in which fewer bytes than the capacity are outstanding, \<open>ps2_avail\<close> is
  false exactly when the consumer has taken as many bytes as were produced. And for every
  list of at most capacity bytes, enqueuing them and then dequeuing as many returns the
  same bytes in the same order and leaves the buffer empty.
\<close>

theorem rb_round_trip:
  assumes wf: "rx_wf len s" and empty: "rx_head s = rx_tail s"
  shows "(consumed ops \<le> produced ops \<and> produced ops - consumed ops < len \<longrightarrow>
           (\<not> ps2_avail (snd (rb_run len ops s))) = (produced ops = consumed ops))
       \<and> (length xs \<le> len \<longrightarrow>
           fst (rb_run len (map Put xs @ replicate (length xs) Get) s) = xs
           \<and> \<not> ps2_avail (snd (rb_run len (map Put xs @ replicate (length xs) Get) s)))"
proof -
  have A: "0 < len" "len \<le> 256" "rx_head s = rx_tail s" "unat (rx_tail s) < len"
    "length (rx_buf s) = len"
    using wf empty by (simp_all add: rx_wf_def)
  have a: "(\<not> ps2_avail (snd (rb_run len ops s))) = (produced ops = consumed ops)"
    if "consumed ops \<le> produced ops" and "produced ops - consumed ops < len"
    by (rule rb_avail_iff [OF A(1-4) that])
  have b: "fst (rb_run len (map Put xs @ replicate (length xs) Get) s) = xs
           \<and> \<not> ps2_avail (snd (rb_run len (map Put xs @ replicate (length xs) Get) s))"
    if le: "length xs \<le> len"
  proof -
    let ?s1 = "snd (rb_run len (map Put xs) s)"
    let ?ops = "map Put xs @ replicate (length xs) Get"
    have hlt: "unat (rx_head s) < len" using A(3,4) by simp
    have tl: "rx_tail ?s1 = rx_tail s" by (rule rb_puts_tail)
    have "fst (rb_run len ?ops s) = fst (rb_run len (replicate (length xs) Get) ?s1)"
      by (simp add: rb_run_append_fst rb_puts_fst)
    also have "\<dots> = map (\<lambda>i. rx_buf ?s1 ! ((unat (rx_tail s) + i) mod len)) [0..<length xs]"
      using rb_gets_fst [OF A(1,2), of ?s1 "length xs"] A(4) by (simp add: tl)
    also have "\<dots> = map (\<lambda>i. xs ! i) [0..<length xs]"
      using rb_puts_slot [OF A(1,2) hlt A(5) le] A(3) by simp
    also have "\<dots> = xs" by (rule map_nth)
    finally have r: "fst (rb_run len ?ops s) = xs" .
    have pc: "produced ?ops = length xs \<and> consumed ?ops = length xs"
      by (simp add: produced_append consumed_append produced_puts consumed_puts
          produced_gets consumed_gets)
    then have "\<not> ps2_avail (snd (rb_run len ?ops s))"
      using rb_avail_iff [OF A(1-4), of ?ops] A(1) by simp
    with r show ?thesis by simp
  qed
  from a b show ?thesis by blast
qed

theorem rb_round_trip_witness:
  "rx_wf 16 ps2_ready \<and> rx_head ps2_ready = rx_tail ps2_ready
   \<and> consumed [Put 7, Get, Put 9] \<le> produced [Put 7, Get, Put 9]
   \<and> produced [Put 7, Get, Put 9] - consumed [Put 7, Get, Put 9] < 16
   \<and> ps2_avail (snd (rb_run 16 [Put 7, Get, Put 9] ps2_ready))
   \<and> length [0xCD, 0xFA, 0x00 :: uint8_t] \<le> 16
   \<and> fst (rb_run 16 (map Put [0xCD, 0xFA, 0x00] @ replicate (length [0xCD, 0xFA, 0x00 :: uint8_t]) Get)
         ps2_ready) = [0xCD, 0xFA, 0x00]
   \<and> \<not> ps2_avail (snd (rb_run 16
         (map Put [0xCD, 0xFA, 0x00] @ replicate (length [0xCD, 0xFA, 0x00 :: uint8_t]) Get)
         ps2_ready))"
  using rb_round_trip [of 16 ps2_ready "[Put 7, Get, Put 9]" "[0xCD, 0xFA, 0x00]"] ready_rx_wf
  by (simp add: ps2_ready_def ps2_init_def ps2_enable_recv_def ps2_dir_def ps2_clk_def
      ps2_zero_def)

text \<open>
  C5 as stated fails when the number of outstanding bytes reaches the capacity: sixteen
  bytes enqueued into the empty 16-byte buffer and none dequeued leave head equal to tail,
  so \<open>ps2_avail\<close> is false although the consumer has drained nothing.
\<close>

theorem rb_full_reads_empty:
  "\<not> ps2_avail (snd (rb_run 16 sixteen_puts ps2_ready))
   \<and> produced sixteen_puts = 16 \<and> consumed sixteen_puts = 0
   \<and> \<not> ps2_avail ps2_ready"
  by (simp add: sixteen_puts_def ps2_avail_def rb_enqueue_def rx_put_def Let_def
      ps2_ready_def ps2_init_def ps2_enable_recv_def ps2_dir_def ps2_clk_def ps2_zero_def)

section \<open>Receiving a frame\<close>

lemma bit_128_int: "bit (128 :: int) n = (n = 7)"
proof -
  have "(128 :: int) = 2 ^ 7" by simp
  then show ?thesis by (simp only: bit_exp_iff) auto
qed

lemma bit_shift_in:
  "bit (drop_bit 1 (w::uint8_t) OR ps2_datin d) n =
     (if n = 7 then d else n < 7 \<and> bit w (Suc n))"
proof -
  have "bit w (Suc n) \<Longrightarrow> Suc n < 8" using bit_imp_le_length [of w "Suc n"] by simp
  then show ?thesis
    by (auto simp: bit_or_iff bit_drop_bit_eq ps2_datin_def bit_128_int)
qed

lemma datin_xor: "ps2_datin a XOR ps2_datin b = ps2_datin (a \<noteq> b)"
  by (simp add: ps2_datin_def)

lemma datin_zero: "(ps2_datin a = 0) = (\<not> a)"
  by (simp add: ps2_datin_def)

lemma odd_ones_foldl_gen: "foldl (\<noteq>) b bs = (b \<noteq> odd (ones bs))"
  by (induction bs arbitrary: b) (auto simp: ones_def)

lemma shift_in_8:
  "foldl (\<lambda>w d. drop_bit 1 w OR ps2_datin d) (0::uint8_t) [d0, d1, d2, d3, d4, d5, d6, d7]
   = lsb_first_byte [d0, d1, d2, d3, d4, d5, d6, d7]"
proof (rule bit_eqI)
  fix n
  assume "possible_bit TYPE(uint8_t) n"
  then have "n < 8" by (simp add: possible_bit_def)
  then consider "n = 0" | "n = 1" | "n = 2" | "n = 3" | "n = 4" | "n = 5" | "n = 6" | "n = 7"
    by linarith
  then show "bit (foldl (\<lambda>w d. drop_bit 1 w OR ps2_datin d) (0::uint8_t)
                [d0, d1, d2, d3, d4, d5, d6, d7]) n
     = bit (lsb_first_byte [d0, d1, d2, d3, d4, d5, d6, d7]) n"
    by cases (simp_all only: foldl.simps bit_shift_in,
        simp_all add: lsb_first_byte_def bit_horner_sum_bit_word_iff)
qed

lemma parity_fold:
  "foldl (\<lambda>p d. p XOR ps2_datin d) (ps2_datin b) ds = ps2_datin (b \<noteq> odd (ones ds))"
proof (induction ds arbitrary: b)
  case Nil
  show ?case by (simp add: ones_def)
next
  case (Cons d ds)
  have "((b \<noteq> d) \<noteq> odd (ones ds)) = (b \<noteq> odd (ones (d # ds)))"
    by (auto simp: ones_def)
  then show ?case by (simp add: datin_xor Cons.IH)
qed

lemma list8:
  assumes "length ds = 8"
  obtains d0 d1 d2 d3 d4 d5 d6 d7 where "ds = [d0, d1, d2, d3, d4, d5, d6, d7]"
  using assms by (auto simp: numeral_eq_Suc length_Suc_conv)

lemma edge_IDLE_start:
  "state s = IDLE \<Longrightarrow>
   int0_isr len t False s = s\<lparr>state := RX_DATA, bits := 8, parity := 0, recv_byte := 0\<rparr>"
  by (simp add: int0_isr_def ps2_datin_def ps2_recover_def)

lemma edge_RX_DATA:
  "state s = RX_DATA \<Longrightarrow>
   int0_isr len t d s =
     (if bits s - 1 = 0
      then s\<lparr>recv_byte := drop_bit 1 (recv_byte s) OR ps2_datin d,
             parity := parity s XOR ps2_datin d, bits := bits s - 1, state := RX_PARITY\<rparr>
      else s\<lparr>recv_byte := drop_bit 1 (recv_byte s) OR ps2_datin d,
             parity := parity s XOR ps2_datin d, bits := bits s - 1\<rparr>)"
  by (simp add: int0_isr_def ps2_recover_def Let_def)

lemma edge_RX_PARITY:
  "state s = RX_PARITY \<Longrightarrow>
   int0_isr len t p s =
     (if parity s XOR ps2_datin p \<noteq> 0
      then s\<lparr>parity := parity s XOR ps2_datin p, state := RX_STOP\<rparr>
      else ps2_recover t (s\<lparr>parity := parity s XOR ps2_datin p, state := ERROR\<rparr>))"
  by (simp add: int0_isr_def ps2_recover_def Let_def)

lemma edge_RX_STOP:
  "state s = RX_STOP \<Longrightarrow>
   int0_isr len t stop s =
     (if stop then (rx_put len s)\<lparr>state := IDLE\<rparr>
      else ps2_recover t (s\<lparr>state := ERROR\<rparr>))"
  by (simp add: int0_isr_def ps2_recover_def Let_def ps2_datin_def rx_put_def)

lemma rx_data_8:
  assumes "state s = RX_DATA" and "bits s = 8"
  shows "run len t (map Edge [d0, d1, d2, d3, d4, d5, d6, d7]) s =
     s\<lparr>recv_byte := foldl (\<lambda>w d. drop_bit 1 w OR ps2_datin d) (recv_byte s)
                      [d0, d1, d2, d3, d4, d5, d6, d7],
       parity := foldl (\<lambda>p d. p XOR ps2_datin d) (parity s) [d0, d1, d2, d3, d4, d5, d6, d7],
       bits := 0, state := RX_PARITY\<rparr>"
  using assms by (simp add: edge_RX_DATA)

lemma rx_data_8_states:
  assumes "state s = RX_DATA" and "bits s = 8"
  shows "map (\<lambda>m. (state m, rx_head m, rx_tail m, rx_buf m))
           (states_of len t (map Edge [d0, d1, d2, d3, d4, d5, d6, d7]) s) =
         map (\<lambda>st. (st, rx_head s, rx_tail s, rx_buf s))
           [RX_DATA, RX_DATA, RX_DATA, RX_DATA, RX_DATA, RX_DATA, RX_DATA, RX_PARITY]"
  using assms by (simp add: edge_RX_DATA)

lemma run_append: "run len t (es1 @ es2) s = run len t es2 (run len t es1 s)"
  by (induction es1 arbitrary: s) simp_all

lemma states_of_append:
  "states_of len t (es1 @ es2) s =
     states_of len t es1 s @ states_of len t es2 (run len t es1 s)"
  by (induction es1 arbitrary: s) simp_all

lemma rx_to_parity:
  assumes "state s = IDLE" and "length ds = 8"
  shows "run len t (Edge False # map Edge ds) s =
     s\<lparr>recv_byte := lsb_first_byte ds, parity := ps2_datin (odd (ones ds)),
       bits := 0, state := RX_PARITY\<rparr>"
proof -
  obtain d0 d1 d2 d3 d4 d5 d6 d7 where ds: "ds = [d0, d1, d2, d3, d4, d5, d6, d7]"
    using assms(2) by (rule list8)
  let ?s1 = "s\<lparr>state := RX_DATA, bits := 8, parity := 0, recv_byte := 0\<rparr>"
  have z: "(0::uint8_t) = ps2_datin False" by (simp add: ps2_datin_def)
  have "run len t (Edge False # map Edge ds) s = run len t (map Edge ds) ?s1"
    using assms(1) by (simp add: edge_IDLE_start)
  also have "\<dots> = ?s1\<lparr>recv_byte := foldl (\<lambda>w d. drop_bit 1 w OR ps2_datin d) (recv_byte ?s1) ds,
       parity := foldl (\<lambda>p d. p XOR ps2_datin d) (parity ?s1) ds,
       bits := 0, state := RX_PARITY\<rparr>"
    unfolding ds by (rule rx_data_8) simp_all
  also have "foldl (\<lambda>w d. drop_bit 1 w OR ps2_datin d) (recv_byte ?s1) ds = lsb_first_byte ds"
    unfolding ds using shift_in_8 by simp
  also have "foldl (\<lambda>p d. p XOR ps2_datin d) (parity ?s1) ds = ps2_datin (odd (ones ds))"
    using parity_fold [of False ds] by (simp add: z [symmetric])
  finally show ?thesis by simp
qed


lemma rx_put_enqueue:
  "(rx_put len (s\<lparr>recv_byte := v, parity := q, bits := b, state := st\<rparr>)) =
   (rb_enqueue len v s)\<lparr>parity := q, bits := b, state := st\<rparr>"
  by (simp add: rb_enqueue_def rx_put_def Let_def)

lemma rx_to_parity_states:
  assumes "state s = IDLE" and "length ds = 8"
  shows "map (\<lambda>m. (state m, rx_head m, rx_tail m, rx_buf m))
           (states_of len t (Edge False # map Edge ds) s) =
         map (\<lambda>st. (st, rx_head s, rx_tail s, rx_buf s))
           [RX_DATA, RX_DATA, RX_DATA, RX_DATA, RX_DATA, RX_DATA, RX_DATA, RX_DATA, RX_PARITY]"
proof -
  obtain d0 d1 d2 d3 d4 d5 d6 d7 where ds: "ds = [d0, d1, d2, d3, d4, d5, d6, d7]"
    using assms(2) by (rule list8)
  let ?s1 = "s\<lparr>state := RX_DATA, bits := 8, parity := 0, recv_byte := 0\<rparr>"
  have "map (\<lambda>m. (state m, rx_head m, rx_tail m, rx_buf m))
           (states_of len t (map Edge [d0, d1, d2, d3, d4, d5, d6, d7]) ?s1) =
         map (\<lambda>st. (st, rx_head ?s1, rx_tail ?s1, rx_buf ?s1))
           [RX_DATA, RX_DATA, RX_DATA, RX_DATA, RX_DATA, RX_DATA, RX_DATA, RX_PARITY]"
    by (rule rx_data_8_states) simp_all
  then show ?thesis using assms(1) by (simp add: ds edge_IDLE_start)
qed

lemma butlast_frame:
  "butlast (states_of len t (es @ [e1, e2]) s) =
     states_of len t es s @ [handle len t e1 (run len t es s)]"
  by (simp add: states_of_append butlast_append)

text \<open>
  C1. A frame with a low start bit, eight data bits, a parity bit that makes the number of
  ones among the nine odd, and a high stop bit, handled from \<open>IDLE\<close> on a well-formed
  buffer, ends in \<open>IDLE\<close>
  with exactly one byte enqueued: the ten states before the stop edge have the buffer, the
  head and the tail they had at the start, and the stop edge writes \<open>lsb_first_byte ds\<close>
  at the head and advances the head by one modulo the capacity. Bit \<open>i\<close> of that byte is
  the \<open>i\<close>-th sampled data bit, and on a buffer that was empty \<open>ps2_getbyte\<close> returns it.
\<close>

theorem rx_valid_frame_delivers_byte:
  assumes "state s = IDLE" and "length ds = 8" and "odd (ones (ds @ [p]))"
    and wf: "rx_wf len s"
  shows "run len t (rx_frame ds p True) s =
           (rb_enqueue len (lsb_first_byte ds) s)\<lparr>parity := 0x80, bits := 0, state := IDLE\<rparr>
       \<and> map (\<lambda>m. (state m, rx_head m, rx_tail m, rx_buf m))
             (butlast (states_of len t (rx_frame ds p True) s)) =
           map (\<lambda>st. (st, rx_head s, rx_tail s, rx_buf s))
             [RX_DATA, RX_DATA, RX_DATA, RX_DATA, RX_DATA, RX_DATA, RX_DATA, RX_DATA,
              RX_PARITY, RX_STOP]
       \<and> rx_buf (run len t (rx_frame ds p True) s) =
           (rx_buf s)[unat (rx_head s) := lsb_first_byte ds]
       \<and> rx_head (run len t (rx_frame ds p True) s) =
           word_of_nat ((unat (rx_head s) + 1) mod len)
       \<and> rx_tail (run len t (rx_frame ds p True) s) = rx_tail s
       \<and> (\<forall>i<8. bit (lsb_first_byte ds) i = ds ! i)
       \<and> rx_wf len (run len t (rx_frame ds p True) s)
       \<and> (rx_tail s = rx_head s \<longrightarrow>
            fst (ps2_getbyte len (run len t (rx_frame ds p True) s)) = lsb_first_byte ds)"
proof -
  let ?P = "s\<lparr>recv_byte := lsb_first_byte ds, parity := ps2_datin (odd (ones ds)),
       bits := 0, state := RX_PARITY\<rparr>"
  have par: "(odd (ones ds) \<noteq> p)" using assms(3) by (auto simp: ones_def)
  have P: "run len t (Edge False # map Edge ds) s = ?P"
    by (rule rx_to_parity [OF assms(1,2)])
  have fr: "rx_frame ds p True = (Edge False # map Edge ds) @ [Edge p, Edge True]"
    by (simp add: rx_frame_def)
  have px: "ps2_datin (odd (ones ds)) XOR ps2_datin p = 0x80"
    using par by (simp add: datin_xor) (simp add: ps2_datin_def)
  have S: "handle len t (Edge p) ?P = ?P\<lparr>parity := 0x80, state := RX_STOP\<rparr>"
    by (simp add: edge_RX_PARITY px)
  have r: "run len t (rx_frame ds p True) s =
           (rb_enqueue len (lsb_first_byte ds) s)\<lparr>parity := 0x80, bits := 0, state := IDLE\<rparr>"
    unfolding fr run_append P
    by (simp add: S del: handle.simps) (simp add: edge_RX_STOP rb_enqueue_def rx_put_def Let_def)
  have st: "map (\<lambda>m. (state m, rx_head m, rx_tail m, rx_buf m))
             (butlast (states_of len t (rx_frame ds p True) s)) =
           map (\<lambda>st. (st, rx_head s, rx_tail s, rx_buf s))
             [RX_DATA, RX_DATA, RX_DATA, RX_DATA, RX_DATA, RX_DATA, RX_DATA, RX_DATA,
              RX_PARITY, RX_STOP]"
    unfolding fr butlast_frame P
    using rx_to_parity_states [OF assms(1,2), of len t]
    by (simp add: S del: handle.simps states_of.simps)
  have bits: "\<forall>i<8. bit (lsb_first_byte ds) i = ds ! i"
    using assms(2) by (simp add: lsb_first_byte_def bit_horner_sum_bit_word_iff)
  have w: "rx_wf len ((rb_enqueue len (lsb_first_byte ds) s)
             \<lparr>parity := 0x80, bits := 0, state := IDLE\<rparr>)"
    using wf by (simp add: rx_wf_def rb_enqueue_def rx_put_def Let_def unat_next_index)
  have h: "unat (rx_head s) < length (rx_buf s)" using wf by (simp add: rx_wf_def)
  show ?thesis
    using st bits w h unfolding r
    by (simp add: rb_enqueue_def rx_put_def Let_def ps2_getbyte_def)
qed


text \<open>The frame of the specification's scenario: data bits 1,0,1,1,0,0,1,1, parity bit 0.\<close>

theorem rx_valid_frame_delivers_byte_witness:
  "state ps2_ready = IDLE \<and> length cd_bits = 8 \<and> odd (ones (cd_bits @ [False]))
   \<and> rx_wf 16 ps2_ready \<and> rx_tail ps2_ready = rx_head ps2_ready
   \<and> fst (ps2_getbyte 16 (run 16 ATmega8A (rx_frame cd_bits False True) ps2_ready)) = 0xCD
   \<and> rx_head (run 16 ATmega8A (rx_frame cd_bits False True) ps2_ready) = 1
   \<and> state (run 16 ATmega8A (rx_frame cd_bits False True) ps2_ready) = IDLE"
  using rx_valid_frame_delivers_byte [of ps2_ready cd_bits False 16 ATmega8A] ready_rx_wf
  by (simp add: cd_bits_def ones_def lsb_first_byte_def ps2_ready_def ps2_init_def
      ps2_enable_recv_def ps2_dir_def ps2_clk_def ps2_zero_def
      rb_enqueue_def rx_put_def Let_def ps2_getbyte_def)

lemma rx_frame_0xCD_evaluated:
  "fst (ps2_getbyte 16 (run 16 ATmega328P_16MHz (rx_frame cd_bits False True) ps2_ready)) = 0xCD
   \<and> ps2_avail (run 16 ATmega328P_16MHz (rx_frame cd_bits False True) ps2_ready)"
  by (simp add: rx_frame_def cd_bits_def ps2_ready_def ps2_init_def ps2_enable_recv_def
      ps2_dir_def ps2_clk_def ps2_zero_def int0_isr_def ps2_datin_def ps2_recover_def
      rx_put_def Let_def ps2_getbyte_def ps2_avail_def)

lemma edge_rx_same:
  "\<not> (pin \<and> state s = RX_STOP) \<Longrightarrow> rx_same (int0_isr len t pin s) s"
  by (cases "state s")
    (simp_all add: int0_isr_def rx_same_def ps2_recover_def ps2_enable_recv_def ps2_dir_def
      ps2_clk_def ps2_dat_def ps2_datin_def Let_def)

lemma tick_rx_same: "rx_same (timer0_ovf t clk dat s) s"
  by (cases "state s")
    (simp_all add: timer0_ovf_def rx_same_def ps2_recover_def ps2_enable_recv_def ps2_dir_def
      ps2_clk_def ps2_dat_def tx_req0_pull_def tx_req0_release_def Let_def)

lemma handle_rx_wf: "rx_wf len s \<Longrightarrow> rx_wf len (handle len t e s)"
proof (cases "e = Edge True \<and> state s = RX_STOP")
  case True
  then have "handle len t e s = (rx_put len s)\<lparr>state := IDLE\<rparr>"
    by (simp add: edge_RX_STOP)
  moreover assume "rx_wf len s"
  ultimately show ?thesis using rx_put_rx_wf [of len s] by (simp add: rx_wf_def)
next
  case False
  then have "rx_same (handle len t e s) s"
    using edge_rx_same [of _ s len t] tick_rx_same [of t _ _ s] by (cases e) auto
  moreover assume "rx_wf len s"
  ultimately show ?thesis by (simp add: rx_wf_def rx_same_def)
qed

lemma run_rx_wf: "rx_wf len s \<Longrightarrow> rx_wf len (run len t evs s)"
  by (induction evs arbitrary: s) (simp_all add: handle_rx_wf del: handle.simps)

















section \<open>Sending a byte\<close>

lemma start_tx_inv: "tx_inv (sendbyte_start t byte s)"
  by (simp add: sendbyte_start_def tx_inv_def Let_def)

lemma edge_tx_inv: "tx_inv s \<Longrightarrow> tx_inv (int0_isr len t pin s)"
  by (cases "state s")
    (simp_all add: int0_isr_def tx_inv_def recv_enabled_def ps2_recover_def ps2_enable_recv_def
      ps2_dir_def ps2_clk_def ps2_dat_def rx_put_def Let_def)

lemma tick_tx_inv: "tx_inv s \<Longrightarrow> tx_inv (timer0_ovf t clk dat s)"
  by (cases "state s")
    (simp_all add: timer0_ovf_def tx_inv_def recv_enabled_def ps2_recover_def
      ps2_enable_recv_def ps2_dir_def ps2_clk_def ps2_dat_def tx_req0_pull_def
      tx_req0_release_def Let_def)

lemma handle_tx_inv: "tx_inv s \<Longrightarrow> tx_inv (handle len t e s)"
  by (cases e) (simp_all add: edge_tx_inv tick_tx_inv)

lemma run_tx_inv: "tx_inv s \<Longrightarrow> tx_inv (run len t evs s)"
  by (induction evs arbitrary: s) (simp_all add: handle_tx_inv del: handle.simps)

text \<open>
  Splitting the handler changes nothing when it is not interrupted: \<open>int0_isr\<close> is
  \<open>int0_switch\<close> then \<open>ps2_recover\<close>, the writes of \<open>recover_writes\<close> are those of
  \<open>ps2_recover\<close>, and an overflow served after the last write is an overflow after the
  handler.
\<close>

lemma int0_isr_switch: "int0_isr len t pin s = ps2_recover t (int0_switch len t pin s)"
  by (simp add: int0_isr_def int0_switch_def Let_def)

lemma recover_writes_whole:
  "state s = ERROR \<Longrightarrow> apply_all (recover_writes t) s = ps2_recover t s"
  by (simp add: recover_writes_def ps2_recover_def ps2_enable_recv_def ps2_clk_def ps2_dir_def)

lemma nested_after_last_write:
  "int0_isr_nested len t pin (In_recover 7) clk dat s =
     timer0_ovf t clk dat (int0_isr len t pin s)"
proof -
  have "take 7 (recover_writes t) = recover_writes t" and "drop 7 (recover_writes t) = []"
    by (simp_all add: recover_writes_def)
  then show ?thesis
    by (simp add: int0_isr_nested_def int0_isr_switch Let_def recover_writes_whole)
      (simp add: ps2_recover_def)
qed

lemma wait_idle_whole:
  "wait_idle len t (map Whole es) s = Some (rest, s') \<Longrightarrow>
   state s' = IDLE \<and> (tx_inv s \<longrightarrow> tx_inv s')
   \<and> (\<exists>pre post. es = pre @ post \<and> rest = map Whole post \<and> s' = run len t pre s)"
proof (induction es arbitrary: s)
  case Nil
  then show ?case by (simp split: if_splits)
next
  case (Cons e es)
  show ?case
  proof (cases "state s = IDLE")
    case True
    with Cons.prems have r: "rest = map Whole (e # es)" and e: "s' = s" by auto
    have "\<exists>pre post. e # es = pre @ post \<and> rest = map Whole post \<and> s' = run len t pre s"
    proof (intro exI conjI)
      show "e # es = [] @ (e # es)" by simp
      show "rest = map Whole (e # es)" by (rule r)
      show "s' = run len t [] s" using e by simp
    qed
    then show ?thesis using True e by simp
  next
    case False
    with Cons.prems have w: "wait_idle len t (map Whole es) (handle len t e s) = Some (rest, s')"
      by simp
    from Cons.IH [OF w] obtain pre post where
      a: "state s' = IDLE" and b: "tx_inv (handle len t e s) \<longrightarrow> tx_inv s'"
      and c: "es = pre @ post" and r: "rest = map Whole post"
      and d: "s' = run len t pre (handle len t e s)" by blast
    have "e # es = (e # pre) @ post" and "s' = run len t (e # pre) s"
      using c d by simp_all
    then show ?thesis using a b r handle_tx_inv [of s len t e] by blast
  qed
qed

text \<open>
  When every handler runs from entry to exit, \<open>ps2_sendbyte\<close> returns in \<open>IDLE\<close> with
  reception enabled (both lines inputs, the bus-edge interrupt unmasked), whatever the
  handlers were: a state that is \<open>IDLE\<close> after the start of a transmission has reception
  enabled.
\<close>

lemma ps2_sendbyte_whole_handlers:
  assumes "ps2_sendbyte len t byte (map Whole es) s = Some (rest, s')"
  shows "state s' = IDLE \<and> \<not> ps2_busy s' \<and> recv_enabled s'"
proof -
  from assms obtain rest1 s1 where
    w1: "wait_idle len t (map Whole es) s = Some (rest1, s1)"
    and w2: "wait_idle len t rest1 (sendbyte_start t byte s1) = Some (rest, s')"
    by (auto simp: ps2_sendbyte_def split: option.splits)
  from wait_idle_whole [OF w1] obtain post where r1: "rest1 = map Whole post" by blast
  from wait_idle_whole [OF w2 [unfolded r1]] start_tx_inv [of t byte s1]
  have "state s' = IDLE" and "tx_inv s'" by simp_all
  then show ?thesis by (simp add: tx_inv_def ps2_busy_def)
qed

lemma nested_nack:
  assumes "state s = TX_ACK"
  shows "int0_isr_nested len t True (In_recover 0) clk dat s =
           s\<lparr>state := IDLE, port_dat := False, int0_flag := False, int0_en := False,
             port_clk := False, ddr_dat := False, ddr_clk := True,
             tcnt0 := recover_tcnt0 t, toie0 := True, tccr0 := 4\<rparr>"
    and "\<not> recv_enabled (int0_isr_nested len t True (In_recover 0) clk dat s)"
  using assms
  by (simp_all add: int0_isr_nested_def int0_switch_def Let_def ps2_datin_def recover_writes_def
      timer0_ovf_def ps2_enable_recv_def ps2_dir_def ps2_clk_def ps2_dat_def recv_enabled_def)

lemmas sendbyte_evals = ps2_sendbyte_def sendbyte_start_def ack_run_def nack_run_def silent_run_def
      tx_clocked_def ps2_ready_def ps2_init_def ps2_zero_def ps2_enable_recv_def ps2_dir_def
      ps2_clk_def ps2_dat_def int0_isr_def timer0_ovf_def tx_req0_pull_def tx_req0_release_def
      ps2_recover_def ps2_datin_def ps2_clkin_def Let_def bark_init_def recv_enabled_def
      ps2_avail_def

text \<open>
  C3. \<open>ps2_sendbyte\<close> is meant to return in \<open>IDLE\<close> with reception enabled on every
  path, and the code does not on this one: \<open>ps2_sendbyte(0x5A)\<close>, the device clocks the
  frame and leaves the data line high at the acknowledge bit, and the watchdog overflow
  (timer interrupt enabled, prescaler running since the request) is served inside the
  bus-edge handler after \<open>ps2_recover\<close> has read \<open>state == ERROR\<close>. The timer handler
  sets \<open>IDLE\<close> and enables reception; the bus-edge handler resumes and masks the
  bus-edge interrupt and drives the clock low; the spin loop sees \<open>IDLE\<close> and
  \<open>ps2_sendbyte\<close> returns with reception disabled.
\<close>

theorem ps2_sendbyte_nack_nested_returns_disabled:
  "state (run 16 ATmega8A tx_clocked tx_request_5A) = TX_ACK
   \<and> toie0 (run 16 ATmega8A tx_clocked tx_request_5A)
   \<and> tccr0 (run 16 ATmega8A tx_clocked tx_request_5A) = 4
   \<and> ps2_sendbyte 16 ATmega8A 0x5A nack_nested_run ps2_ready \<noteq> None
   \<and> fst (the (ps2_sendbyte 16 ATmega8A 0x5A nack_nested_run ps2_ready)) = []
   \<and> state (snd (the (ps2_sendbyte 16 ATmega8A 0x5A nack_nested_run ps2_ready))) = IDLE
   \<and> \<not> recv_enabled (snd (the (ps2_sendbyte 16 ATmega8A 0x5A nack_nested_run ps2_ready)))
   \<and> \<not> int0_en (snd (the (ps2_sendbyte 16 ATmega8A 0x5A nack_nested_run ps2_ready)))
   \<and> ddr_clk (snd (the (ps2_sendbyte 16 ATmega8A 0x5A nack_nested_run ps2_ready)))
   \<and> \<not> port_clk (snd (the (ps2_sendbyte 16 ATmega8A 0x5A nack_nested_run ps2_ready)))"
  by (simp add: sendbyte_evals nack_nested_run_def tx_request_5A_def int0_isr_nested_def int0_switch_def
      recover_writes_def)


text \<open>
  The negative acknowledge with the watchdog overflow served inside the bus-edge handler.
  Served before the test of line 93, the overflow does the recovery and \<open>ps2_recover\<close>
  then finds \<open>IDLE\<close> and does nothing. Served after the test, it sets \<open>IDLE\<close> and
  enables reception, and the handler then goes on with the writes of \<open>ps2_recover\<close> that
  are left: reception ends up disabled exactly when the write of line 140, which makes the
  clock an output, is among them.
\<close>

lemma nested_nack_after_switch:
  assumes "state s = TX_ACK"
  shows "state (int0_isr_nested len t True After_switch clk dat s) = IDLE"
    and "recv_enabled (int0_isr_nested len t True After_switch clk dat s)"
  using assms
  by (simp_all add: int0_isr_nested_def int0_switch_def Let_def ps2_datin_def ps2_recover_def
      timer0_ovf_def ps2_enable_recv_def ps2_dir_def ps2_clk_def ps2_dat_def recv_enabled_def)

lemma nested_nack_window:
  assumes "state s = TX_ACK"
  shows "state (int0_isr_nested len t True (In_recover k) clk dat s) = IDLE"
    and "recv_enabled (int0_isr_nested len t True (In_recover k) clk dat s) = (4 \<le> k)"
proof -
  consider "k = 0" | "k = 1" | "k = 2" | "k = 3" | "k = 4" | "k = 5" | "k = 6" | "7 \<le> k"
    by linarith
  then have "state (int0_isr_nested len t True (In_recover k) clk dat s) = IDLE
      \<and> recv_enabled (int0_isr_nested len t True (In_recover k) clk dat s) = (4 \<le> k)"
    using assms
    by cases
      (simp_all add: int0_isr_nested_def int0_switch_def Let_def ps2_datin_def recover_writes_def
        timer0_ovf_def ps2_enable_recv_def ps2_dir_def ps2_clk_def ps2_dat_def recv_enabled_def)
  then show "state (int0_isr_nested len t True (In_recover k) clk dat s) = IDLE"
    and "recv_enabled (int0_isr_nested len t True (In_recover k) clk dat s) = (4 \<le> k)"
    by simp_all
qed

lemma ps2_sendbyte_whole_paths:
  "ps2_sendbyte 16 ATmega8A 0x5A (map Whole ack_run) ps2_ready \<noteq> None
   \<and> recv_enabled (snd (the (ps2_sendbyte 16 ATmega8A 0x5A (map Whole ack_run) ps2_ready)))
   \<and> \<not> ps2_avail (snd (the (ps2_sendbyte 16 ATmega8A 0x5A (map Whole ack_run) ps2_ready)))
   \<and> ps2_sendbyte 16 ATmega8A 0x5A (map Whole nack_run) ps2_ready \<noteq> None
   \<and> recv_enabled (snd (the (ps2_sendbyte 16 ATmega8A 0x5A (map Whole nack_run) ps2_ready)))
   \<and> ps2_sendbyte 16 ATmega8A 0x5A (map Whole silent_run) ps2_ready \<noteq> None
   \<and> recv_enabled (snd (the (ps2_sendbyte 16 ATmega8A 0x5A (map Whole silent_run) ps2_ready)))"
  by (simp add: sendbyte_evals)

section \<open>Transmitting a frame\<close>

lemma and_1_neq_0: "((w::uint8_t) AND 1 \<noteq> 0) = odd w"
  by (simp add: and_one_eq mod_2_eq_odd)

lemma edge_TX_DATA:
  "state s = TX_DATA \<Longrightarrow>
   int0_isr len t pin s =
     (if bits s - 1 = 0
      then s\<lparr>port_dat := odd (tx_byte s), parity := parity s XOR tx_byte s mod 2,
             tx_byte := drop_bit 1 (tx_byte s), bits := bits s - 1, state := TX_PARITY\<rparr>
      else s\<lparr>port_dat := odd (tx_byte s), parity := parity s XOR tx_byte s mod 2,
             tx_byte := drop_bit 1 (tx_byte s), bits := bits s - 1\<rparr>)"
  unfolding int0_isr_def ps2_recover_def ps2_dat_def Let_def and_1_neq_0
  by (simp add: and_one_eq)

lemma edge_TX_PARITY:
  "state s = TX_PARITY \<Longrightarrow>
   int0_isr len t pin s = s\<lparr>port_dat := (parity s XOR 1 \<noteq> 0), state := TX_STOP\<rparr>"
  by (simp add: int0_isr_def ps2_recover_def ps2_dat_def Let_def)

lemma of_bool_xor: "(of_bool a :: uint8_t) XOR of_bool b = of_bool (a \<noteq> b)"
  by (cases a; cases b) simp_all

lemma word8_of_nat_neq_0: "0 < n \<Longrightarrow> n < 256 \<Longrightarrow> (word_of_nat n :: uint8_t) \<noteq> 0"
  using dvd_imp_le [of 256 n] by (auto simp: word_of_nat_eq_0_iff)

lemma ones_Cons: "odd (ones (x # xs)) = (x \<noteq> odd (ones xs))"
  by (simp add: ones_def)

lemma tx_data_run:
  "state s = TX_DATA \<Longrightarrow> tx_byte s = drop_bit j b \<Longrightarrow> bits s = word_of_nat (length pins) \<Longrightarrow>
   0 < length pins \<Longrightarrow> length pins < 256 \<Longrightarrow>
   map port_dat (states_of len t (map Edge pins) s) = map (bit b) [j..<j + length pins]
   \<and> map state (states_of len t (map Edge pins) s) =
       replicate (length pins - 1) TX_DATA @ [TX_PARITY]
   \<and> map ddr_dat (states_of len t (map Edge pins) s) = replicate (length pins) (ddr_dat s)
   \<and> state (run len t (map Edge pins) s) = TX_PARITY
   \<and> ddr_dat (run len t (map Edge pins) s) = ddr_dat s
   \<and> parity (run len t (map Edge pins) s) =
       parity s XOR of_bool (odd (ones (map (bit b) [j..<j + length pins])))"
proof (induction pins arbitrary: s j)
  case Nil
  then show ?case by simp
next
  case (Cons p ps)
  let ?s1 = "int0_isr len t p s"
  have b1: "bits s - 1 = word_of_nat (length ps)" using Cons.prems(3) by simp
  have pd: "port_dat ?s1 = bit b j"
    using Cons.prems(1,2) by (simp add: edge_TX_DATA bit_iff_odd_drop_bit)
  have dd: "ddr_dat ?s1 = ddr_dat s"
    using Cons.prems(1) by (simp add: edge_TX_DATA)
  have pa: "parity ?s1 = parity s XOR of_bool (bit b j)"
    using Cons.prems(1,2) by (simp add: edge_TX_DATA bit_iff_odd_drop_bit mod_2_eq_odd)
  have tb: "tx_byte ?s1 = drop_bit (Suc j) b"
    using Cons.prems(1,2) by (simp add: edge_TX_DATA)
  have up: "[j..<j + length (p # ps)] = j # [Suc j..<Suc j + length ps]"
    by (simp add: upt_conv_Cons del: upt_Suc)
  show ?case
  proof (cases ps)
    case Nil
    then have "state ?s1 = TX_PARITY"
      using Cons.prems(1) b1 by (simp add: edge_TX_DATA)
    then show ?thesis using Nil pd dd pa by (simp add: ones_def)
  next
    case (Cons q qs)
    then have pos: "0 < length ps" by simp
    have lt: "length ps < 256" using Cons.prems(5) by simp
    have nz: "bits s - 1 \<noteq> 0" unfolding b1 by (rule word8_of_nat_neq_0 [OF pos lt])
    have st: "state ?s1 = TX_DATA" using Cons.prems(1) nz by (simp add: edge_TX_DATA)
    have bs: "bits ?s1 = word_of_nat (length ps)"
      using Cons.prems(1) nz b1 by (simp add: edge_TX_DATA)
    note IH = Cons.IH [OF st tb bs pos lt]
    have rp: "replicate (length ps) TX_DATA = TX_DATA # replicate (length ps - 1) TX_DATA"
      using pos by (cases "length ps") simp_all
    show ?thesis
      unfolding up
      using IH pd dd pa st
      by (simp add: rp ones_Cons of_bool_xor xor.assoc del: upt_Suc)
  qed
qed


lemma ones_append: "ones (xs @ ys) = ones xs + ones ys"
  by (simp add: ones_def)

lemma tick_TX_REQ0:
  "state s = TX_REQ0 \<Longrightarrow>
   timer0_ovf t clk dat s =
     s\<lparr>barkcnt := bark_init t, toie0 := True, tcnt0 := 0, tccr0 := 4,
       port_dat := False, ddr_dat := True, ddr_clk := False,
       int0_flag := False, int0_en := True, bits := 8, parity := 0, state := TX_DATA\<rparr>"
  by (simp add: timer0_ovf_def tx_req0_pull_def tx_req0_release_def ps2_dat_def ps2_dir_def)

text \<open>
  C6. After the timer handler has moved \<open>TX_REQ0\<close> to \<open>TX_DATA\<close>, nine bus edges
  drive the data line (an output throughout) with bits 0 to 7 of the pending byte, in that
  order, and then with the negation of their exclusive or, so that the number of ones among
  the nine driven levels is odd. The sampled data line plays no part.
\<close>

theorem tx_parity_bit_odd:
  assumes "state s = TX_REQ0" and "length pins = 9"
  shows "map port_dat (states_of len t (map Edge pins) (timer0_ovf t clk dat s)) =
           map (bit (tx_byte s)) [0..<8] @ [\<not> odd (ones (map (bit (tx_byte s)) [0..<8]))]
       \<and> odd (ones (map port_dat (states_of len t (map Edge pins) (timer0_ovf t clk dat s))))
       \<and> map state (states_of len t (map Edge pins) (timer0_ovf t clk dat s)) =
           replicate 7 TX_DATA @ [TX_PARITY, TX_STOP]
       \<and> map ddr_dat (states_of len t (map Edge pins) (timer0_ovf t clk dat s)) =
           replicate 9 True"
proof -
  let ?s1 = "timer0_ovf t clk dat s"
  let ?bs = "map (bit (tx_byte s)) [0..<8]"
  have "length pins = Suc 8" using assms(2) by simp
  then obtain p9 ps where pins: "pins = ps @ [p9]" and l8: "length ps = 8"
    unfolding length_Suc_conv_rev by blast
  have sp: "map Edge pins = map Edge ps @ [Edge p9]" by (simp add: pins)
  have s1: "state ?s1 = TX_DATA" "tx_byte ?s1 = drop_bit 0 (tx_byte s)"
    "bits ?s1 = word_of_nat (length ps)" "ddr_dat ?s1" "parity ?s1 = 0"
    unfolding l8 using assms(1) by (simp_all add: tick_TX_REQ0)
  have "0 < length ps" and "length ps < 256" using l8 by simp_all
  note D = tx_data_run [OF s1(1-3) this, of len t]
  let ?P = "run len t (map Edge ps) ?s1"
  have P: "state ?P = TX_PARITY" "ddr_dat ?P" "parity ?P = of_bool (odd (ones ?bs))"
    using D s1(4,5) by (simp_all add: l8)
  have L: "int0_isr len t p9 ?P =
             ?P\<lparr>port_dat := \<not> odd (ones ?bs), state := TX_STOP\<rparr>"
    using P by (simp add: edge_TX_PARITY)
  have lv: "map port_dat (states_of len t (map Edge pins) ?s1) = ?bs @ [\<not> odd (ones ?bs)]"
    unfolding sp states_of_append using D L by (simp add: l8)
  have st: "map state (states_of len t (map Edge pins) ?s1) =
           replicate 7 TX_DATA @ [TX_PARITY, TX_STOP]"
    unfolding sp states_of_append using D L by (simp add: l8)
  have r9: "replicate 9 True = replicate 8 True @ [True]" by code_simp
  have dd: "map ddr_dat (states_of len t (map Edge pins) ?s1) = replicate 9 True"
    unfolding sp states_of_append r9 using D L P s1(4)
    by (simp add: l8 del: replicate_append_same)
  have "odd (ones (?bs @ [\<not> odd (ones ?bs)]))"
    by (simp add: ones_append) (simp add: ones_def)
  then show ?thesis using lv st dd by simp
qed

lemma tx_5A_levels_evaluated:
  "map port_dat (states_of 16 ATmega328P_16MHz (map Edge nine_samples)
     (timer0_ovf ATmega328P_16MHz False False tx_request_5A)) =
   [False, True, False, True, True, False, True, False, True]"
  by (simp add: nine_samples_def tx_request_5A_def sendbyte_start_def ps2_enable_recv_def
      ps2_dir_def ps2_clk_def ps2_dat_def timer0_ovf_def tx_req0_pull_def tx_req0_release_def
      int0_isr_def ps2_recover_def Let_def)

text \<open>
  For 0x5A the driven levels are 0,1,0,1,1,0,1,0 and the parity bit 1.
\<close>

theorem tx_parity_bit_odd_witness:
  "state tx_request_5A = TX_REQ0 \<and> length nine_samples = 9 \<and> tx_byte tx_request_5A = 0x5A
   \<and> map port_dat (states_of 16 ATmega8A (map Edge nine_samples)
         (timer0_ovf ATmega8A False False tx_request_5A)) =
       [False, True, False, True, True, False, True, False, True]"
proof -
  have a: "state tx_request_5A = TX_REQ0" and c: "tx_byte tx_request_5A = 0x5A"
    by (simp_all add: tx_request_5A_def sendbyte_start_def Let_def)
  have b: "length nine_samples = 9" by (simp add: nine_samples_def)
  have d: "map (bit (0x5A :: uint8_t)) [0..<8] =
             [False, True, False, True, True, False, True, False]"
    by code_simp
  show ?thesis
    using a b tx_parity_bit_odd [OF a b, of 16 ATmega8A False False]
    unfolding c d by (simp add: ones_def)
qed

text \<open>
  C4, as amended. In \<open>TX_END\<close> with the two lines not both high, the timer handler tests
  \<open>waitcnt\<close> before it decrements: it goes to \<open>ERROR\<close> and calls \<open>ps2_recover\<close>
  exactly when \<open>waitcnt\<close> is already zero on entry, leaving it at zero, and otherwise
  only decrements it and stays in \<open>TX_END\<close>. In every state other than \<open>ERROR\<close>,
  \<open>TX_REQ0\<close> and \<open>TX_END\<close> it does the same with \<open>barkcnt\<close>. In \<open>TX_END\<close> with
  both lines high it disables the timer interrupt, stops the timer and sets \<open>IDLE\<close>.
\<close>

theorem tick_watchdog_test_then_decrement:
  "(state s = TX_END \<and> \<not> (clk \<and> dat) \<longrightarrow>
      timer0_ovf t clk dat s =
        (if waitcnt s = 0 then ps2_recover t (s\<lparr>state := ERROR\<rparr>)
         else s\<lparr>waitcnt := waitcnt s - 1\<rparr>)
      \<and> (state (timer0_ovf t clk dat s) = ERROR) = (waitcnt s = 0)
      \<and> (waitcnt s = 0 \<longrightarrow> waitcnt (timer0_ovf t clk dat s) = 0
            \<and> toie0 (timer0_ovf t clk dat s) \<and> \<not> int0_en (timer0_ovf t clk dat s)
            \<and> tcnt0 (timer0_ovf t clk dat s) = recover_tcnt0 t)
      \<and> (waitcnt s \<noteq> 0 \<longrightarrow> state (timer0_ovf t clk dat s) = TX_END))
   \<and> (state s \<notin> {ERROR, TX_REQ0, TX_END} \<longrightarrow>
      timer0_ovf t clk dat s =
        (if barkcnt s = 0 then ps2_recover t (s\<lparr>state := ERROR\<rparr>)
         else s\<lparr>barkcnt := barkcnt s - 1\<rparr>)
      \<and> (state (timer0_ovf t clk dat s) = ERROR) = (barkcnt s = 0)
      \<and> (barkcnt s = 0 \<longrightarrow> barkcnt (timer0_ovf t clk dat s) = 0
            \<and> toie0 (timer0_ovf t clk dat s) \<and> \<not> int0_en (timer0_ovf t clk dat s)
            \<and> tcnt0 (timer0_ovf t clk dat s) = recover_tcnt0 t)
      \<and> (barkcnt s \<noteq> 0 \<longrightarrow> state (timer0_ovf t clk dat s) = state s))
   \<and> (state s = TX_END \<and> clk \<and> dat \<longrightarrow>
      timer0_ovf t clk dat s = s\<lparr>toie0 := False, tccr0 := 0, state := IDLE\<rparr>)"
  by (cases "state s")
    (auto simp: timer0_ovf_def ps2_recover_def ps2_enable_recv_def ps2_dir_def ps2_clk_def
      ps2_clkin_def ps2_datin_def)

theorem tick_watchdog_test_then_decrement_witness:
  "state tx_end_wait1 = TX_END \<and> waitcnt tx_end_wait1 = 1
   \<and> timer0_ovf ATmega8A False True tx_end_wait1 = tx_end_wait1\<lparr>waitcnt := 0\<rparr>
   \<and> state (timer0_ovf ATmega8A False True (tx_end_wait1\<lparr>waitcnt := 0\<rparr>)) = ERROR
   \<and> waitcnt (timer0_ovf ATmega8A False True (tx_end_wait1\<lparr>waitcnt := 0\<rparr>)) = 0
   \<and> state (tx_end_wait1\<lparr>state := TX_DATA, barkcnt := 0\<rparr>) \<notin> {ERROR, TX_REQ0, TX_END}
   \<and> state (timer0_ovf ATmega8A False True (tx_end_wait1\<lparr>state := TX_DATA, barkcnt := 0\<rparr>))
       = ERROR
   \<and> timer0_ovf ATmega8A True True tx_end_wait1 =
       tx_end_wait1\<lparr>toie0 := False, tccr0 := 0, state := IDLE\<rparr>"
  using tick_watchdog_test_then_decrement [of tx_end_wait1 False True ATmega8A]
    tick_watchdog_test_then_decrement [of "tx_end_wait1\<lparr>waitcnt := 0\<rparr>" False True ATmega8A]
    tick_watchdog_test_then_decrement
      [of "tx_end_wait1\<lparr>state := TX_DATA, barkcnt := 0\<rparr>" False True ATmega8A]
    tick_watchdog_test_then_decrement [of tx_end_wait1 True True ATmega8A]
  by (simp add: tx_end_wait1_def ps2_recover_def ps2_enable_recv_def ps2_dir_def ps2_clk_def)

text \<open>
  C4 as stated fails: with \<open>waitcnt = 1\<close> in \<open>TX_END\<close> and the lines low, the handler
  brings the countdown to zero and stays in \<open>TX_END\<close>; \<open>ERROR\<close> comes one overflow
  later, without a decrement.
\<close>

theorem tick_reaching_zero_is_not_error:
  "state tx_end_wait1 = TX_END \<and> waitcnt tx_end_wait1 = 1
   \<and> waitcnt (timer0_ovf ATmega8A False False tx_end_wait1) = 0
   \<and> state (timer0_ovf ATmega8A False False tx_end_wait1) = TX_END
   \<and> state (timer0_ovf ATmega8A False False (timer0_ovf ATmega8A False False tx_end_wait1))
       = ERROR
   \<and> waitcnt (timer0_ovf ATmega8A False False (timer0_ovf ATmega8A False False tx_end_wait1))
       = 0"
  by (simp add: tx_end_wait1_def timer0_ovf_def ps2_recover_def ps2_enable_recv_def ps2_dir_def
      ps2_clk_def ps2_clkin_def ps2_datin_def)

section \<open>Error and transmit-request states\<close>





lemma edge_TX_REQ0: "state s = TX_REQ0 \<Longrightarrow> int0_isr len t pin s = s"
  by (simp add: int0_isr_def ps2_recover_def Let_def)

lemma edges_in_TX_REQ0: "state s = TX_REQ0 \<Longrightarrow> run len t (map Edge pins) s = s"
  by (induction pins) (simp_all add: edge_TX_REQ0)

text \<open>
  C8. In \<open>TX_REQ0\<close> a bus edge changes nothing at all. A handler invocation that leaves
  \<open>TX_REQ0\<close> is a timer overflow; it loads the watchdog (\<open>barkcnt\<close>, timer enabled
  from zero with prescaler 4), drives the data line low with the clock still an output at
  its previous level (low, when \<open>ps2_sendbyte\<close> set it), then makes the clock an input,
  clears the pending bus-edge flag and unmasks the interrupt, sets \<open>bits\<close> to 8 and
  \<open>parity\<close> to 0, and enters \<open>TX_DATA\<close>.
\<close>

theorem tx_request_left_only_by_timer:
  assumes "state s = TX_REQ0"
  shows "int0_isr len t pin s = s
       \<and> run len t (map Edge pins) s = s
       \<and> (state (handle len t e s) \<noteq> TX_REQ0 \<longrightarrow>
            (\<exists>clk dat. e = Tick clk dat) \<and> state (handle len t e s) = TX_DATA)
       \<and> timer0_ovf t clk dat s = tx_req0_release (tx_req0_pull t s)
       \<and> tx_req0_pull t s =
           s\<lparr>barkcnt := bark_init t, toie0 := True, tcnt0 := 0, tccr0 := 4,
             port_dat := False, ddr_dat := True, ddr_clk := True\<rparr>
       \<and> (\<not> port_clk s \<longrightarrow> ddr_clk (tx_req0_pull t s) \<and> \<not> port_clk (tx_req0_pull t s)
            \<and> ddr_dat (tx_req0_pull t s) \<and> \<not> port_dat (tx_req0_pull t s))
       \<and> timer0_ovf t clk dat s =
           s\<lparr>barkcnt := bark_init t, toie0 := True, tcnt0 := 0, tccr0 := 4,
             port_dat := False, ddr_dat := True, ddr_clk := False,
             int0_flag := False, int0_en := True, bits := 8, parity := 0, state := TX_DATA\<rparr>"
proof -
  have t: "timer0_ovf t clk dat s = tx_req0_release (tx_req0_pull t s)" for clk dat
    using assms by (simp add: timer0_ovf_def)
  have p: "tx_req0_pull t s =
           s\<lparr>barkcnt := bark_init t, toie0 := True, tcnt0 := 0, tccr0 := 4,
             port_dat := False, ddr_dat := True, ddr_clk := True\<rparr>"
    by (simp add: tx_req0_pull_def ps2_dat_def ps2_dir_def)
  have r: "tx_req0_release (tx_req0_pull t s) =
           s\<lparr>barkcnt := bark_init t, toie0 := True, tcnt0 := 0, tccr0 := 4,
             port_dat := False, ddr_dat := True, ddr_clk := False,
             int0_flag := False, int0_en := True, bits := 8, parity := 0, state := TX_DATA\<rparr>"
    unfolding p by (simp add: tx_req0_release_def ps2_dir_def)
  have h: "(\<exists>clk dat. e = Tick clk dat) \<and> state (handle len t e s) = TX_DATA"
    if "state (handle len t e s) \<noteq> TX_REQ0"
  proof (cases e)
    case (Edge q)
    then show ?thesis using that assms by (simp add: edge_TX_REQ0)
  next
    case (Tick c d)
    then show ?thesis by (simp add: t r)
  qed
  have i: "\<not> port_clk s \<longrightarrow> ddr_clk (tx_req0_pull t s) \<and> \<not> port_clk (tx_req0_pull t s)
            \<and> ddr_dat (tx_req0_pull t s) \<and> \<not> port_dat (tx_req0_pull t s)"
    unfolding p by simp
  have k: "timer0_ovf t clk dat s =
           s\<lparr>barkcnt := bark_init t, toie0 := True, tcnt0 := 0, tccr0 := 4,
             port_dat := False, ddr_dat := True, ddr_clk := False,
             int0_flag := False, int0_en := True, bits := 8, parity := 0, state := TX_DATA\<rparr>"
    using t r by simp
  show ?thesis
    using h i p k t [of clk dat] edge_TX_REQ0 [OF assms, of len t pin]
      edges_in_TX_REQ0 [OF assms, of len t pins]
    by blast
qed

theorem tx_request_left_only_by_timer_witness:
  "state tx_request_5A = TX_REQ0 \<and> \<not> port_clk tx_request_5A \<and> ddr_clk tx_request_5A
   \<and> int0_isr 16 ATmega8A False tx_request_5A = tx_request_5A
   \<and> state (handle 16 ATmega8A (Tick False False) tx_request_5A) = TX_DATA
   \<and> \<not> port_clk (tx_req0_pull ATmega8A tx_request_5A)
   \<and> ddr_clk (tx_req0_pull ATmega8A tx_request_5A)
   \<and> \<not> port_dat (tx_req0_pull ATmega8A tx_request_5A)
   \<and> ddr_dat (tx_req0_pull ATmega8A tx_request_5A)
   \<and> \<not> ddr_clk (timer0_ovf ATmega8A False False tx_request_5A)
   \<and> int0_en (timer0_ovf ATmega8A False False tx_request_5A)
   \<and> bits (timer0_ovf ATmega8A False False tx_request_5A) = 8
   \<and> parity (timer0_ovf ATmega8A False False tx_request_5A) = 0
   \<and> barkcnt (timer0_ovf ATmega8A False False tx_request_5A) = 20"
proof -
  have a: "state tx_request_5A = TX_REQ0" and b: "\<not> port_clk tx_request_5A"
    and c: "ddr_clk tx_request_5A"
    by (simp_all add: tx_request_5A_def sendbyte_start_def ps2_enable_recv_def ps2_dir_def
        ps2_clk_def Let_def)
  note T = tx_request_left_only_by_timer [OF a, of 16 ATmega8A False "[]"
        "Tick False False" False False]
  from T have e: "int0_isr 16 ATmega8A False tx_request_5A = tx_request_5A" by blast
  from T b have p: "ddr_clk (tx_req0_pull ATmega8A tx_request_5A)
      \<and> \<not> port_clk (tx_req0_pull ATmega8A tx_request_5A)
      \<and> ddr_dat (tx_req0_pull ATmega8A tx_request_5A)
      \<and> \<not> port_dat (tx_req0_pull ATmega8A tx_request_5A)"
    by blast
  from T have k: "timer0_ovf ATmega8A False False tx_request_5A =
           tx_request_5A\<lparr>barkcnt := bark_init ATmega8A, toie0 := True, tcnt0 := 0, tccr0 := 4,
             port_dat := False, ddr_dat := True, ddr_clk := False,
             int0_flag := False, int0_en := True, bits := 8, parity := 0, state := TX_DATA\<rparr>"
    by blast
  show ?thesis using a b c e p by (simp add: k bark_init_def)
qed

section \<open>Translating a packet\<close>

lemma ps2bufToSer_reject: "m src AND 0x08 = 0 \<Longrightarrow> ps2bufToSer src dst m = (0, m)"
  by (simp add: ps2bufToSer_def)

lemma ps2bufToSer_frame:
  assumes "m src AND 0x08 \<noteq> 0"
  shows "fst (ps2bufToSer src dst m) = 1"
    and "a \<notin> {dst, dst + 1, dst + 2} \<Longrightarrow> snd (ps2bufToSer src dst m) a = m a"
  using assms by (simp_all add: ps2bufToSer_def Let_def cong: let_weak_cong)

lemma ps2bufToSer_values:
  assumes "m src AND 0x08 \<noteq> 0" and "{src, src + 1, src + 2} \<inter> {dst, dst + 1, dst + 2} = {}"
  shows "(snd (ps2bufToSer src dst m) dst, snd (ps2bufToSer src dst m) (dst + 1),
          snd (ps2bufToSer src dst m) (dst + 2)) = ser_packet (m src) (m (src + 1)) (m (src + 2))"
  using assms by (simp add: ps2bufToSer_def Let_def ser_packet_def ac_simps cong: let_weak_cong)

text \<open>
  C9, as amended. When bit 3 of the first source byte is clear, \<open>ps2bufToSer\<close> returns
  0 and leaves the memory unchanged. Otherwise it returns 1 and changes no byte other than
  the three destination bytes; and when the destination bytes do not overlap the source
  bytes, the three destination bytes are \<open>ser_packet\<close> of the three source bytes and the
  source bytes are unchanged.
\<close>

theorem ps2bufToSer_disjoint_buffers:
  "(m src AND 0x08 = 0 \<longrightarrow> ps2bufToSer src dst m = (0, m))
   \<and> (m src AND 0x08 \<noteq> 0 \<longrightarrow>
        fst (ps2bufToSer src dst m) = 1
        \<and> (\<forall>a. a \<notin> {dst, dst + 1, dst + 2} \<longrightarrow> snd (ps2bufToSer src dst m) a = m a))
   \<and> (m src AND 0x08 \<noteq> 0 \<and> {src, src + 1, src + 2} \<inter> {dst, dst + 1, dst + 2} = {} \<longrightarrow>
        (snd (ps2bufToSer src dst m) dst, snd (ps2bufToSer src dst m) (dst + 1),
         snd (ps2bufToSer src dst m) (dst + 2)) = ser_packet (m src) (m (src + 1)) (m (src + 2))
        \<and> snd (ps2bufToSer src dst m) src = m src
        \<and> snd (ps2bufToSer src dst m) (src + 1) = m (src + 1)
        \<and> snd (ps2bufToSer src dst m) (src + 2) = m (src + 2))"
proof -
  have s: "snd (ps2bufToSer src dst m) src = m src
        \<and> snd (ps2bufToSer src dst m) (src + 1) = m (src + 1)
        \<and> snd (ps2bufToSer src dst m) (src + 2) = m (src + 2)"
    if "m src AND 0x08 \<noteq> 0" and "{src, src + 1, src + 2} \<inter> {dst, dst + 1, dst + 2} = {}"
  proof -
    have "src \<notin> {dst, dst + 1, dst + 2}" "src + 1 \<notin> {dst, dst + 1, dst + 2}"
      "src + 2 \<notin> {dst, dst + 1, dst + 2}"
      using that(2) by blast+
    then show ?thesis using ps2bufToSer_frame(2) [where m = m and src = src and dst = dst, OF that(1)] by blast
  qed
  show ?thesis
    using ps2bufToSer_reject [of m src dst]
      ps2bufToSer_frame [where m = m and src = src and dst = dst]
      ps2bufToSer_values [of m src dst] s
    by blast
qed

theorem ps2bufToSer_disjoint_buffers_witness:
  "packet_mem 0x100 AND 0x08 \<noteq> 0
   \<and> {0x100, 0x100 + 1, 0x100 + 2} \<inter> {0x103, 0x103 + 1, 0x103 + 2} = ({} :: nat set)
   \<and> fst (ps2bufToSer 0x100 0x103 packet_mem) = 1
   \<and> (snd (ps2bufToSer 0x100 0x103 packet_mem) 0x103,
        snd (ps2bufToSer 0x100 0x103 packet_mem) (0x103 + 1),
        snd (ps2bufToSer 0x100 0x103 packet_mem) (0x103 + 2)) = (0xE1, 0x82, 0xBF)
   \<and> snd (ps2bufToSer 0x100 0x103 packet_mem) 0x100 = 0x09
   \<and> (packet_mem 0x103 AND 0x08 = 0
        \<and> ps2bufToSer 0x103 0x100 packet_mem = (0, packet_mem))"
proof -
  have a: "packet_mem 0x100 AND 0x08 \<noteq> 0" and b: "packet_mem 0x103 AND 0x08 = 0"
    and v: "packet_mem 0x100 = 0x09" "packet_mem (0x100 + 1) = 0x85"
      "packet_mem (0x100 + 2) = 0x7F"
    by (simp_all add: packet_mem_def mem_at_def)
  have d: "{0x100, 0x100 + 1, 0x100 + 2} \<inter> {0x103, 0x103 + 1, 0x103 + 2} = ({} :: nat set)"
    by simp
  have p: "ser_packet 0x09 0x85 0x7F = (0xE1, 0x82, 0xBF)" by (simp add: ser_packet_def)
  note T = ps2bufToSer_disjoint_buffers [of packet_mem "0x100" "0x103"]
  note U = ps2bufToSer_disjoint_buffers [of packet_mem "0x103" "0x100"]
  from T a d have 1: "fst (ps2bufToSer 0x100 0x103 packet_mem) = 1" by blast
  from T a d have 2: "(snd (ps2bufToSer 0x100 0x103 packet_mem) 0x103,
        snd (ps2bufToSer 0x100 0x103 packet_mem) (0x103 + 1),
        snd (ps2bufToSer 0x100 0x103 packet_mem) (0x103 + 2)) =
        ser_packet (packet_mem 0x100) (packet_mem (0x100 + 1)) (packet_mem (0x100 + 2))"
    by blast
  from T a d have 3: "snd (ps2bufToSer 0x100 0x103 packet_mem) 0x100 = packet_mem 0x100"
    by blast
  from U b have 4: "ps2bufToSer 0x103 0x100 packet_mem = (0, packet_mem)" by blast
  show ?thesis using a b d 1 2 3 4 unfolding v p by blast
qed

text \<open>
  C9 as stated fails when the two pointers alias: called with \<open>dst = src\<close> on the bytes
  0x08, 0x00, 0x00 the function returns 1 and the first source byte becomes 0xC5, because
  later statements read what earlier ones wrote; called on the same three source bytes
  with a destination three bytes further on, it writes 0xC0 as first byte.
\<close>

theorem ps2bufToSer_aliased_overwrites_source:
  "aliased_packet 0x100 = 0x08 \<and> aliased_packet 0x100 AND 0x08 \<noteq> 0
   \<and> fst (ps2bufToSer 0x100 0x100 aliased_packet) = 1
   \<and> snd (ps2bufToSer 0x100 0x100 aliased_packet) 0x100 = 0xC5
   \<and> snd (ps2bufToSer 0x100 0x103 aliased_packet) 0x103 = 0xC0"
  by (simp add: aliased_packet_def mem_at_def ps2bufToSer_def Let_def cong: let_weak_cong)

end
